theory Spec2Isabelle
  imports Complex_Main
begin

section \<open>EcoSort AI: the game component of \<open>src/App.tsx\<close>\<close>

text \<open>
  The component keeps its state in React hooks and changes it through handlers. Each
  handler is modelled as a function on the part of the state it reads and writes, and
  the numbers it computes with are doubles.
\<close>

subsection \<open>Numbers\<close>

text \<open>
  A JavaScript \<open>number\<close> is an IEEE 754 double: a finite double is the rational it
  denotes, and there are \<open>NaN\<close> and the two infinities. The two zeros are one value here;
  their sign shows only in a division by zero, which the code does not reach.
\<close>

datatype jsnum = Num rat | NaN | PosInfinity | NegInfinity

text \<open>The number of binary digits of a positive integer.\<close>

function bit_length :: "int \<Rightarrow> int" where
  "bit_length n = (if n \<le> 0 then 0 else 1 + bit_length (n div 2))"
  by pat_completeness auto
termination
  by (relation "measure nat") auto

declare bit_length.simps [simp del]

text \<open>
  \<open>ilog2 x\<close> is the integer \<open>e\<close> with \<open>2 ^ e \<le> x < 2 ^ (e + 1)\<close>, for \<open>x > 0\<close>: with \<open>x = p / q\<close>
  in lowest terms it is the difference of the bit lengths of \<open>p\<close> and \<open>q\<close>, or one less.
\<close>

definition ilog2 :: "rat \<Rightarrow> int" where
  "ilog2 x =
     (let d = bit_length (fst (quotient_of x)) - bit_length (snd (quotient_of x))
      in if 2 powi d \<le> x then d else d - 1)"

definition round_ties_even :: "rat \<Rightarrow> int" where
  "round_ties_even x =
     (let f = \<lfloor>x\<rfloor>; r = x - of_int f
      in if r < 1 / 2 then f
         else if 1 / 2 < r then f + 1
         else if even f then f else f + 1)"

text \<open>
  Every arithmetic operation returns the double nearest to the exact result, a tie going
  to the even significand. \<open>grid x\<close> is the exponent of the last of the 53 bits at the
  size of \<open>x\<close>; below \<open>2 ^ - 1022\<close> the doubles are equally spaced (subnormal). A result
  that rounds to \<open>2 ^ 1024\<close> or more is an infinity.
\<close>

definition grid :: "rat \<Rightarrow> int" where
  "grid x = max (ilog2 \<bar>x\<bar>) (- 1022) - 52"

definition round53 :: "rat \<Rightarrow> rat" where
  "round53 x =
     (if x = 0 then 0
      else sgn x * (of_int (round_ties_even (\<bar>x\<bar> / 2 powi grid x)) * 2 powi grid x))"

definition to_double :: "rat \<Rightarrow> jsnum" where
  "to_double x =
     (if 2 ^ 1024 \<le> \<bar>round53 x\<bar> then (if 0 < x then PosInfinity else NegInfinity)
      else Num (round53 x))"

text \<open>The operators \<open>+\<close>, \<open>*\<close>, \<open>/\<close> and \<open>>\<close> on numbers.\<close>

fun js_plus :: "jsnum \<Rightarrow> jsnum \<Rightarrow> jsnum" where
  "js_plus NaN y = NaN"
| "js_plus x NaN = NaN"
| "js_plus (Num a) (Num b) = to_double (a + b)"
| "js_plus PosInfinity NegInfinity = NaN"
| "js_plus NegInfinity PosInfinity = NaN"
| "js_plus PosInfinity y = PosInfinity"
| "js_plus x PosInfinity = PosInfinity"
| "js_plus NegInfinity y = NegInfinity"
| "js_plus x NegInfinity = NegInfinity"

fun js_times :: "jsnum \<Rightarrow> jsnum \<Rightarrow> jsnum" where
  "js_times NaN y = NaN"
| "js_times x NaN = NaN"
| "js_times (Num a) (Num b) = to_double (a * b)"
| "js_times (Num a) PosInfinity =
     (if a = 0 then NaN else if 0 < a then PosInfinity else NegInfinity)"
| "js_times (Num a) NegInfinity =
     (if a = 0 then NaN else if 0 < a then NegInfinity else PosInfinity)"
| "js_times PosInfinity (Num b) =
     (if b = 0 then NaN else if 0 < b then PosInfinity else NegInfinity)"
| "js_times NegInfinity (Num b) =
     (if b = 0 then NaN else if 0 < b then NegInfinity else PosInfinity)"
| "js_times PosInfinity PosInfinity = PosInfinity"
| "js_times NegInfinity NegInfinity = PosInfinity"
| "js_times PosInfinity NegInfinity = NegInfinity"
| "js_times NegInfinity PosInfinity = NegInfinity"

fun js_divide :: "jsnum \<Rightarrow> jsnum \<Rightarrow> jsnum" where
  "js_divide NaN y = NaN"
| "js_divide x NaN = NaN"
| "js_divide (Num a) (Num b) =
     (if b = 0 then (if a = 0 then NaN else if 0 < a then PosInfinity else NegInfinity)
      else to_double (a / b))"
| "js_divide (Num a) y = Num 0"
| "js_divide PosInfinity (Num b) = (if 0 \<le> b then PosInfinity else NegInfinity)"
| "js_divide NegInfinity (Num b) = (if 0 \<le> b then NegInfinity else PosInfinity)"
| "js_divide x y = NaN"

fun js_greater :: "jsnum \<Rightarrow> jsnum \<Rightarrow> bool" where
  "js_greater NaN y = False"
| "js_greater x NaN = False"
| "js_greater (Num a) (Num b) = (b < a)"
| "js_greater PosInfinity PosInfinity = False"
| "js_greater PosInfinity y = True"
| "js_greater x PosInfinity = False"
| "js_greater NegInfinity y = False"
| "js_greater x NegInfinity = True"

declare js_plus.simps [simp del] js_times.simps [simp del] js_divide.simps [simp del]

text \<open>
  \<open>Math.floor\<close>, and \<open>Math.round\<close>: the nearest integer, a tie going up. Both are exact.
\<close>

definition Math_floor :: "jsnum \<Rightarrow> jsnum" where
  "Math_floor x = (case x of Num q \<Rightarrow> Num (of_int \<lfloor>q\<rfloor>) | _ \<Rightarrow> x)"

definition Math_round :: "jsnum \<Rightarrow> jsnum" where
  "Math_round x = (case x of Num q \<Rightarrow> Num (of_int \<lfloor>q + 1 / 2\<rfloor>) | _ \<Rightarrow> x)"

subsection \<open>Data model\<close>

datatype Category = Recycle | Trash

record GameStats =
  score :: jsnum
  streak :: jsnum
  totalAnswers :: jsnum
  correctAnswers :: jsnum
  level :: jsnum

record AnalysisResult =
  classification :: Category
  confidence :: jsnum
  explanation :: string
  tips :: "string list"

text \<open>The initial value of the \<open>gameStats\<close> hook.\<close>

definition initialGameStats :: GameStats where
  "initialGameStats =
     \<lparr>score = Num 0, streak = Num 0, totalAnswers = Num 0, correctAnswers = Num 0,
      level = Num 1\<rparr>"

subsection \<open>Scoring: \<open>handleUserAnswer\<close>\<close>

text \<open>
  \<open>x || 0\<close> on a number: the right operand replaces a falsy left operand, and the falsy
  numbers are \<open>0\<close> and \<open>NaN\<close>.
\<close>

definition or_zero :: "jsnum \<Rightarrow> jsnum" where
  "or_zero x =
     (case x of Num q \<Rightarrow> (if q = 0 then Num 0 else x) | NaN \<Rightarrow> Num 0 | _ \<Rightarrow> x)"

text \<open>
  \<open>analysisResult?.classification\<close> is \<open>undefined\<close> when no result is stored, and
  \<open>answer === undefined\<close> is false; \<open>analysisResult?.confidence || 0\<close> is \<open>0\<close> then.
\<close>

definition isCorrect :: "Category \<Rightarrow> AnalysisResult option \<Rightarrow> bool" where
  "isCorrect answer analysisResult =
     (case analysisResult of None \<Rightarrow> False | Some r \<Rightarrow> answer = classification r)"

definition points :: "Category \<Rightarrow> AnalysisResult option \<Rightarrow> jsnum" where
  "points answer analysisResult =
     (if isCorrect answer analysisResult
      then (case analysisResult of None \<Rightarrow> Num 0 | Some r \<Rightarrow> or_zero (confidence r))
      else Num 0)"

text \<open>The updater passed to \<open>setGameStats\<close>, applied to the previous statistics.\<close>

definition handleUserAnswer ::
  "Category \<Rightarrow> AnalysisResult option \<Rightarrow> GameStats \<Rightarrow> GameStats" where
  "handleUserAnswer answer analysisResult prev =
     prev\<lparr>score := js_plus (score prev) (points answer analysisResult),
          streak :=
            (if isCorrect answer analysisResult then js_plus (streak prev) (Num 1) else Num 0),
          totalAnswers := js_plus (totalAnswers prev) (Num 1),
          correctAnswers :=
            js_plus (correctAnswers prev)
              (if isCorrect answer analysisResult then Num 1 else Num 0),
          level :=
            js_plus
              (Math_floor
                 (js_divide (js_plus (score prev) (points answer analysisResult)) (Num 500)))
              (Num 1)\<rparr>"

text \<open>
  A game is a sequence of answers, each given against the result stored at that moment.
\<close>

fun play :: "GameStats \<Rightarrow> (Category \<times> AnalysisResult option) list \<Rightarrow> GameStats" where
  "play s [] = s"
| "play s ((answer, r) # rest) = play (handleUserAnswer answer r s) rest"

subsection \<open>Values parsed from the AI reply\<close>

text \<open>
  \<open>JSON.parse\<close> returns an arbitrary JSON value and the cast \<open>as AnalysisResult\<close> checks
  nothing at run time, so what the Classifier returns is a JSON value. An object is
  the list of its properties, each name once.
\<close>

datatype json =
    JNull
  | JBool bool
  | JNumber rat
  | JString string
  | JArray "json list"
  | JObject "(string \<times> json) list"

datatype js_error = Error string | SyntaxError string | TypeError string

text \<open>
  Reading a property (\<open>result.classification\<close>) throws a \<open>TypeError\<close> on \<open>null\<close> and
  gives \<open>undefined\<close> (here \<open>None\<close>) where the value has no such property. It is used
  for the property names of \<open>AnalysisResult\<close> only, which no string, number, boolean
  or array has.
\<close>

definition get_prop :: "json \<Rightarrow> string \<Rightarrow> js_error + json option" where
  "get_prop v name =
     (case v of
        JNull \<Rightarrow> Inl (TypeError ''Cannot read properties of null'')
      | JObject props \<Rightarrow> Inr (map_of props name)
      | _ \<Rightarrow> Inr None)"

text \<open>The falsy values are \<open>undefined\<close>, \<open>null\<close>, \<open>false\<close>, \<open>0\<close> and the empty string.\<close>

definition truthy :: "json option \<Rightarrow> bool" where
  "truthy v =
     (case v of
        None \<Rightarrow> False
      | Some JNull \<Rightarrow> False
      | Some (JBool b) \<Rightarrow> b
      | Some (JNumber q) \<Rightarrow> q \<noteq> 0
      | Some (JString s) \<Rightarrow> s \<noteq> []
      | Some _ \<Rightarrow> True)"

text \<open>\<open>Array.prototype.includes\<close> on an array of strings: only an equal string is found.\<close>

definition array_includes :: "string list \<Rightarrow> json option \<Rightarrow> bool" where
  "array_includes xs v = (case v of Some (JString s) \<Rightarrow> s \<in> set xs | _ \<Rightarrow> False)"

subsection \<open>Strings\<close>

text \<open>
  A \<open>string\<close> is the sequence of code units of the JavaScript string, for texts whose
  code units are below 256.
\<close>

definition startsWith :: "string \<Rightarrow> string \<Rightarrow> bool" where
  "startsWith s p = (take (length p) s = p)"

definition newline :: char where
  "newline = CHR 0x0A"

text \<open>
  One match of the regular expression \<open>/```json\n?|\n?```/\<close> at the start of a string, as
  its length. The first alternative is tried first, and \<open>\n?\<close> is greedy.
\<close>

definition fence_match :: "string \<Rightarrow> nat option" where
  "fence_match s =
     (if startsWith s ''```json'' then
        (if startsWith (drop 7 s) [newline] then Some 8 else Some 7)
      else if startsWith s (newline # ''```'') then Some 4
      else if startsWith s ''```'' then Some 3
      else None)"

text \<open>
  \<open>text.replace(/.../g, '')\<close>: the matches are found from left to right, each search
  starting where the last match ended, and removed. The first argument counts the
  characters of the current match that are still to be dropped.
\<close>

fun strip_from :: "nat \<Rightarrow> string \<Rightarrow> string" where
  "strip_from k [] = []"
| "strip_from (Suc k) (c # cs) = strip_from k cs"
| "strip_from 0 (c # cs) =
     (case fence_match (c # cs) of
        Some n \<Rightarrow> strip_from (n - 1) cs
      | None \<Rightarrow> c # strip_from 0 cs)"

definition strip_fences :: "string \<Rightarrow> string" where
  "strip_fences s = strip_from 0 s"

text \<open>\<open>trim\<close> removes white space and line terminators at both ends.\<close>

definition is_space :: "char \<Rightarrow> bool" where
  "is_space c =
     (c \<in> set [CHR 0x09, CHR 0x0A, CHR 0x0B, CHR 0x0C, CHR 0x0D, CHR 0x20, CHR 0xA0])"

definition trim :: "string \<Rightarrow> string" where
  "trim s = rev (dropWhile is_space (rev (dropWhile is_space s)))"

definition cleanedText :: "string \<Rightarrow> string" where
  "cleanedText text = trim (strip_fences text)"

subsection \<open>External collaborators\<close>

text \<open>
  The storage service, the AI service, \<open>fetch\<close> and \<open>JSON.parse\<close> are not code of the
  component. They are parameters: each call either throws (\<open>Inl\<close>) or returns.
  \<open>storage_upload\<close> returns the \<open>publicUrl\<close> property of the reply, \<open>None\<close> when it is
  absent; \<open>generateText\<close> returns the \<open>text\<close> property of the reply (a reply without one
  counts as a throw: \<open>text.replace\<close> throws on \<open>undefined\<close>, inside the same \<open>try\<close>);
  \<open>JSON_parse\<close> returns \<open>None\<close> where \<open>JSON.parse\<close> throws a \<open>SyntaxError\<close>.
\<close>

record 'blob Env =
  fetch_blob :: "string \<Rightarrow> js_error + 'blob"
  storage_upload :: "'blob \<Rightarrow> js_error + string option"
  generateText :: "string \<Rightarrow> js_error + string"
  JSON_parse :: "string \<Rightarrow> json option"

text \<open>\<open>try { body } catch (error) { handler }\<close> on results.\<close>

definition try_catch :: "js_error + 'a \<Rightarrow> (js_error \<Rightarrow> js_error + 'a) \<Rightarrow> js_error + 'a" where
  "try_catch body handler = (case body of Inl error \<Rightarrow> handler error | Inr v \<Rightarrow> Inr v)"

subsection \<open>Uploader: \<open>uploadImageToStorage\<close>\<close>

text \<open>The text of \<open>`${publicUrl}`\<close>.\<close>

definition show_url :: "string option \<Rightarrow> string" where
  "show_url u = (case u of None \<Rightarrow> ''undefined'' | Some s \<Rightarrow> s)"

definition upload_body :: "'blob Env \<Rightarrow> string \<Rightarrow> js_error + string" where
  "upload_body env dataUrl =
     (case fetch_blob env dataUrl of
        Inl e \<Rightarrow> Inl e
      | Inr blob \<Rightarrow>
          (case storage_upload env blob of
             Inl e \<Rightarrow> Inl e
           | Inr publicUrl \<Rightarrow>
               (case publicUrl of
                  None \<Rightarrow> Inl (Error (''Invalid storage URL: '' @ show_url publicUrl))
                | Some url \<Rightarrow>
                    if url = [] then Inl (Error (''Invalid storage URL: '' @ show_url publicUrl))
                    else if startsWith url ''https://'' then Inr url
                    else Inl (Error (''Invalid storage URL: '' @ show_url publicUrl)))))"

definition uploadImageToStorage :: "'blob Env \<Rightarrow> string \<Rightarrow> js_error + string" where
  "uploadImageToStorage env dataUrl =
     try_catch (upload_body env dataUrl)
       (\<lambda>error. Inl (Error ''Failed to upload image for analysis''))"

subsection \<open>Classifier: \<open>analyzeImageFromUrl\<close>\<close>

definition classifier_fallback :: json where
  "classifier_fallback =
     JObject
       [(''classification'', JString ''trash''),
        (''confidence'', JNumber 75),
        (''explanation'', JString
           ''Unable to analyze this image clearly. When in doubt, it's safer to put items in trash to avoid contaminating recycling.''),
        (''tips'', JArray
           [JString ''Take a clearer photo if possible'',
            JString ''Check your local recycling guidelines'',
            JString ''When unsure, choose trash to be safe''])]"

text \<open>The validation of the parsed reply.\<close>

definition validate :: "json \<Rightarrow> js_error + json" where
  "validate result =
     (case get_prop result ''classification'' of
        Inl e \<Rightarrow> Inl e
      | Inr c \<Rightarrow>
          if truthy c then
            (if array_includes [''recycle'', ''trash''] c then Inr result
             else Inl (Error ''Invalid classification''))
          else Inl (Error ''Invalid classification''))"

definition analyze_body :: "'blob Env \<Rightarrow> string \<Rightarrow> js_error + json" where
  "analyze_body env imageUrl =
     (if imageUrl = [] then
        Inl (Error (''Invalid image URL for AI analysis: '' @ imageUrl @ ''. Must be HTTPS.''))
      else if startsWith imageUrl ''https://'' then
        (case generateText env imageUrl of
           Inl e \<Rightarrow> Inl e
         | Inr text \<Rightarrow>
             (case JSON_parse env (cleanedText text) of
                None \<Rightarrow> Inl (SyntaxError ''Unexpected token'')
              | Some result \<Rightarrow> validate result))
      else
        Inl (Error (''Invalid image URL for AI analysis: '' @ imageUrl @ ''. Must be HTTPS.'')))"

definition analyzeImageFromUrl :: "'blob Env \<Rightarrow> string \<Rightarrow> js_error + json" where
  "analyzeImageFromUrl env imageUrl =
     try_catch (analyze_body env imageUrl) (\<lambda>error. Inr classifier_fallback)"

subsection \<open>Polling loop\<close>

text \<open>
  The hooks and refs of the component that the loop reads and writes. \<open>stream\<close> tells
  whether a \<open>MediaStream\<close> is held; \<open>analysisIntervalRef\<close> is the \<open>current\<close> field of the
  ref, \<open>None\<close> for \<open>null\<close>.
\<close>

record Component =
  analysisResult :: "json option"
  showResult :: bool
  userAnswer :: "Category option"
  isCameraMode :: bool
  stream :: bool
  isStreamingAnalysis :: bool
  lastAnalysisTime :: int
  analysisIntervalRef :: "nat option"

text \<open>
  The component and what the browser holds for it. \<open>timers\<close> are the interval timers
  that are set and not cleared: the handle of each, and the value of \<open>lastAnalysisTime\<close>
  in the render whose \<open>startStreamingAnalysis\<close> created the callback. That value is a
  \<open>const\<close> of the closure: \<open>setLastAnalysisTime\<close> changes the hook for later renders,
  never the callback that is already set. \<open>issued\<close> counts the handles given out so
  far. \<open>in_flight\<close> are the attempts that have passed the throttle check and the
  capture and are awaiting their upload and classification: the time each began, and
  its frame.
\<close>

record World =
  app :: Component
  timers :: "(nat \<times> int) list"
  issued :: nat
  in_flight :: "(int \<times> string) list"

definition initialComponent :: Component where
  "initialComponent =
     \<lparr>analysisResult = None, showResult = False, userAnswer = None, isCameraMode = False,
      stream = False, isStreamingAnalysis = False, lastAnalysisTime = 0,
      analysisIntervalRef = None\<rparr>"

definition initialWorld :: World where
  "initialWorld = \<lparr>app = initialComponent, timers = [], issued = 0, in_flight = []\<rparr>"

text \<open>\<open>setInterval\<close> returns a handle greater than zero that no timer has had before.\<close>

definition setInterval :: "int \<Rightarrow> World \<Rightarrow> nat \<times> World" where
  "setInterval closure w =
     (Suc (issued w),
      w\<lparr>timers := timers w @ [(Suc (issued w), closure)], issued := Suc (issued w)\<rparr>)"

definition clearInterval :: "nat \<Rightarrow> World \<Rightarrow> World" where
  "clearInterval h w = w\<lparr>timers := filter (\<lambda>t. fst t \<noteq> h) (timers w)\<rparr>"

definition startStreamingAnalysis :: "World \<Rightarrow> World" where
  "startStreamingAnalysis w =
     (let (h, w') = setInterval (lastAnalysisTime (app w)) w
      in w'\<lparr>app := (app w')\<lparr>isStreamingAnalysis := True, analysisResult := None,
                showResult := False, userAnswer := None,
                analysisIntervalRef := Some h\<rparr>\<rparr>)"

text \<open>
  \<open>if (analysisIntervalRef.current) { clearInterval(...); ... = null }\<close>, the block that
  \<open>stopStreamingAnalysis\<close> and \<open>stopCamera\<close> share. The handle \<open>0\<close> would be falsy.
\<close>

definition clear_analysis_interval :: "World \<Rightarrow> World" where
  "clear_analysis_interval w =
     (case analysisIntervalRef (app w) of
        None \<Rightarrow> w
      | Some h \<Rightarrow>
          if h = 0 then w
          else (clearInterval h w)\<lparr>app := (app w)\<lparr>analysisIntervalRef := None\<rparr>\<rparr>)"

definition stopStreamingAnalysis :: "World \<Rightarrow> World" where
  "stopStreamingAnalysis w =
     clear_analysis_interval (w\<lparr>app := (app w)\<lparr>isStreamingAnalysis := False\<rparr>\<rparr>)"

text \<open>
  \<open>stopCamera\<close> is memoised on \<open>stream\<close>: the first argument is the \<open>stream\<close> of the render
  that created the callback being run.
\<close>

definition stopCamera :: "bool \<Rightarrow> World \<Rightarrow> World" where
  "stopCamera closure_stream w =
     clear_analysis_interval
       (w\<lparr>app := (app w)\<lparr>stream := (if closure_stream then False else stream (app w)),
                 isCameraMode := False, isStreamingAnalysis := False\<rparr>\<rparr>)"

definition resetGame :: "World \<Rightarrow> World" where
  "resetGame w =
     stopStreamingAnalysis
       (w\<lparr>app := (app w)\<lparr>analysisResult := None, showResult := False, userAnswer := None\<rparr>\<rparr>)"

text \<open>
  The interval callback up to its first \<open>await\<close>. \<open>closure\<close> is the \<open>lastAnalysisTime\<close> the
  callback closed over, \<open>now\<close> is \<open>Date.now()\<close>, \<open>frame\<close> is what \<open>captureFrame()\<close> returns
  (\<open>!frame\<close> holds for \<open>null\<close> and for the empty string).
\<close>

definition tick_begin :: "int \<Rightarrow> int \<Rightarrow> string option \<Rightarrow> World \<Rightarrow> World" where
  "tick_begin closure now frame w =
     (if now - closure < 2000 then w
      else (case frame of
              None \<Rightarrow> w
            | Some f \<Rightarrow>
                if f = [] then w
                else w\<lparr>app := (app w)\<lparr>lastAnalysisTime := now\<rparr>,
                       in_flight := in_flight w @ [(now, f)]\<rparr>))"

text \<open>The rest of the callback: the \<open>try\<close> block and its \<open>catch\<close>.\<close>

definition tick_fallback :: json where
  "tick_fallback =
     JObject
       [(''classification'', JString ''trash''),
        (''confidence'', JNumber 75),
        (''explanation'', JString
           ''Unable to analyze this frame. Please try adjusting the camera angle or lighting.''),
        (''tips'', JArray
           [JString ''Ensure good lighting'',
            JString ''Hold the camera steady'',
            JString ''Make sure the object is clearly visible''])]"

definition attempt_body :: "'blob Env \<Rightarrow> string \<Rightarrow> js_error + json" where
  "attempt_body env frame =
     (case uploadImageToStorage env frame of
        Inl e \<Rightarrow> Inl e
      | Inr imageUrl \<Rightarrow> analyzeImageFromUrl env imageUrl)"

definition tick_finish :: "'blob Env \<Rightarrow> string \<Rightarrow> Component \<Rightarrow> Component" where
  "tick_finish env frame c =
     (case attempt_body env frame of
        Inr result \<Rightarrow> c\<lparr>analysisResult := Some result\<rparr>
      | Inl error \<Rightarrow> c\<lparr>analysisResult := Some tick_fallback\<rparr>)"

text \<open>
  What happens to a session between the handlers: the browser runs the callback of a
  timer (only of one that is set), or the awaited calls of an attempt in flight
  complete.
\<close>

datatype event =
    TimerFires nat int "string option"
  | AttemptSettles nat

fun step :: "'blob Env \<Rightarrow> event \<Rightarrow> World \<Rightarrow> World" where
  "step env (TimerFires h now frame) w =
     (case map_of (timers w) h of
        None \<Rightarrow> w
      | Some closure \<Rightarrow> tick_begin closure now frame w)"
| "step env (AttemptSettles k) w =
     (if k < length (in_flight w)
      then w\<lparr>app := tick_finish env (snd (in_flight w ! k)) (app w),
             in_flight := take k (in_flight w) @ drop (Suc k) (in_flight w)\<rparr>
      else w)"

fun run :: "'blob Env \<Rightarrow> event list \<Rightarrow> World \<Rightarrow> World" where
  "run env [] w = w"
| "run env (e # es) w = run env es (step env e w)"

subsection \<open>What the component can reach\<close>

text \<open>
  \<open>startCamera\<close> when the camera is granted, and the two state updates that
  \<open>handleUserAnswer\<close> makes besides the statistics.
\<close>

definition startCamera :: "World \<Rightarrow> World" where
  "startCamera w = w\<lparr>app := (app w)\<lparr>stream := True, isCameraMode := True\<rparr>\<rparr>"

definition showAnswer :: "Category \<Rightarrow> World \<Rightarrow> World" where
  "showAnswer answer w = w\<lparr>app := (app w)\<lparr>userAnswer := Some answer, showResult := True\<rparr>\<rparr>"

text \<open>
  The handlers run when the user clicks a button, when an effect is cleaned up or the
  component unmounts (\<open>stopCamera\<close>, of any render), and between them the browser runs
  timers and completes attempts. The button that calls \<open>startStreamingAnalysis\<close> is
  rendered only in the branch \<open>!isStreamingAnalysis\<close> of the component, so a click on it
  finds \<open>isStreamingAnalysis\<close> false. The conditions under which the other buttons are
  rendered, and the camera condition of this one, are left out: that only adds runs.
\<close>

datatype action =
    GrantCamera
  | ClickStartAnalysis
  | ClickStopAnalysis
  | RunStopCamera bool
  | ClickAnswer Category
  | ClickReset
  | Browser event

fun perform :: "'blob Env \<Rightarrow> action \<Rightarrow> World \<Rightarrow> World" where
  "perform env GrantCamera w = startCamera w"
| "perform env ClickStartAnalysis w =
     (if isStreamingAnalysis (app w) then w else startStreamingAnalysis w)"
| "perform env ClickStopAnalysis w = stopStreamingAnalysis w"
| "perform env (RunStopCamera closure_stream) w = stopCamera closure_stream w"
| "perform env (ClickAnswer answer) w = showAnswer answer w"
| "perform env ClickReset w = resetGame w"
| "perform env (Browser e) w = step env e w"

fun perform_all :: "'blob Env \<Rightarrow> action list \<Rightarrow> World \<Rightarrow> World" where
  "perform_all env [] w = w"
| "perform_all env (a # as) w = perform_all env as (perform env a w)"

text \<open>
  The interval of the component is tracked: the handle in the ref belongs to the only
  timer that is set, and without a handle no timer is set.
\<close>

definition interval_tracked :: "World \<Rightarrow> bool" where
  "interval_tracked w =
     (case analysisIntervalRef (app w) of
        None \<Rightarrow> timers w = []
      | Some h \<Rightarrow> h \<noteq> 0 \<and> isStreamingAnalysis (app w) \<and> map fst (timers w) = [h])"

subsection \<open>Accuracy display\<close>

definition accuracy :: "GameStats \<Rightarrow> jsnum" where
  "accuracy gameStats =
     (if js_greater (totalAnswers gameStats) (Num 0)
      then Math_round
             (js_times (js_divide (correctAnswers gameStats) (totalAnswers gameStats)) (Num 100))
      else Num 0)"

subsection \<open>Properties and example inputs\<close>

text \<open>
  The integers up to which every integer is a double, so that sums of them are exact.
\<close>

definition safe_integer :: "int \<Rightarrow> bool" where
  "safe_integer n = (\<bar>n\<bar> \<le> 2 ^ 53)"

definition nonneg_integer :: "jsnum \<Rightarrow> bool" where
  "nonneg_integer x = (case x of Num q \<Rightarrow> 0 \<le> q \<and> q = of_int \<lfloor>q\<rfloor> | _ \<Rightarrow> False)"

text \<open>\<open>x <= y\<close> on numbers.\<close>

fun js_less_eq :: "jsnum \<Rightarrow> jsnum \<Rightarrow> bool" where
  "js_less_eq NaN y = False"
| "js_less_eq x NaN = False"
| "js_less_eq (Num a) (Num b) = (a \<le> b)"
| "js_less_eq NegInfinity y = True"
| "js_less_eq x PosInfinity = True"
| "js_less_eq x y = False"

text \<open>
  The data-model invariant of \<open>GameStats\<close>: the four counters are integers that are not
  negative, and the level is the positive integer \<open>floor(score / 500) + 1\<close>, in exact
  arithmetic.
\<close>

definition GameStats_invariant :: "GameStats \<Rightarrow> bool" where
  "GameStats_invariant s =
     (nonneg_integer (score s) \<and> nonneg_integer (streak s)
      \<and> nonneg_integer (totalAnswers s) \<and> nonneg_integer (correctAnswers s)
      \<and> js_greater (level s) (Num 0)
      \<and> (case score s of Num a \<Rightarrow> level s = Num (of_int (\<lfloor>a / 500\<rfloor> + 1)) | _ \<Rightarrow> False))"

text \<open>
  The answers given against a result whose confidence is an integer that is not
  negative (or against no result), and the points that an answer earns, in exact
  arithmetic.
\<close>

definition nonneg_integer_confidence :: "Category \<times> AnalysisResult option \<Rightarrow> bool" where
  "nonneg_integer_confidence turn =
     (case snd turn of None \<Rightarrow> True | Some r \<Rightarrow> nonneg_integer (confidence r))"

definition step_points :: "Category \<times> AnalysisResult option \<Rightarrow> rat" where
  "step_points turn =
     (case snd turn of
        None \<Rightarrow> 0
      | Some r \<Rightarrow>
          if fst turn = classification r
          then (case confidence r of Num q \<Rightarrow> q | _ \<Rightarrow> 0)
          else 0)"

definition total_points :: "(Category \<times> AnalysisResult option) list \<Rightarrow> rat" where
  "total_points steps = sum_list (map step_points steps)"

text \<open>
  A counter of the statistics: an integer from 0 to \<open>2 ^ 53\<close>, where adding 1 stops
  changing a double. The statistics are exact when the score is an integer from 0 to
  \<open>2 ^ 53\<close>, the other three fields are counters and the level is
  \<open>floor(score / 500) + 1\<close>.
\<close>

definition counter :: "jsnum \<Rightarrow> bool" where
  "counter x =
     (case x of Num q \<Rightarrow> q = of_int \<lfloor>q\<rfloor> \<and> 0 \<le> q \<and> q \<le> 2 ^ 53 | _ \<Rightarrow> False)"

definition GameStats_exact :: "GameStats \<Rightarrow> rat \<Rightarrow> bool" where
  "GameStats_exact s a =
     (score s = Num a \<and> a = of_int \<lfloor>a\<rfloor> \<and> 0 \<le> a \<and> a \<le> 2 ^ 53
      \<and> counter (streak s) \<and> counter (totalAnswers s) \<and> counter (correctAnswers s)
      \<and> level s = Num (of_int (\<lfloor>a / 500\<rfloor> + 1)))"

text \<open>
  The value of a property of a JSON object; \<open>None\<close> where it has none, and for a value
  that is not an object.
\<close>

definition field :: "json \<Rightarrow> string \<Rightarrow> json option" where
  "field v name = (case v of JObject props \<Rightarrow> map_of props name | _ \<Rightarrow> None)"

definition classification_valid :: "json \<Rightarrow> bool" where
  "classification_valid v =
     (field v ''classification'' = Some (JString ''recycle'')
      \<or> field v ''classification'' = Some (JString ''trash''))"

definition confidence_valid :: "json \<Rightarrow> bool" where
  "confidence_valid v =
     (case field v ''confidence'' of
        Some (JNumber q) \<Rightarrow> q = of_int \<lfloor>q\<rfloor> \<and> 70 \<le> q \<and> q \<le> 99
      | _ \<Rightarrow> False)"

text \<open>
  Collaborators for the examples: a storage service that returns an \<open>http\<close> URL and an
  AI service that fails; an AI service that replies, inside a code fence, with a valid
  classification and the confidence 50; one that replies with a classification outside
  the two categories; one that replies with prose. \<open>JSON_parse\<close> is given on the texts
  that occur.
\<close>

definition http_env :: "unit Env" where
  "http_env =
     \<lparr>fetch_blob = (\<lambda>dataUrl. Inr ()),
      storage_upload = (\<lambda>blob. Inr (Some ''http://cdn.example/x.jpg'')),
      generateText = (\<lambda>imageUrl. Inl (Error ''network'')),
      JSON_parse = (\<lambda>text. None)\<rparr>"

definition reply_50 :: string where
  "reply_50 = ''{\"classification\":\"recycle\",\"confidence\":50}''"

definition fenced_reply_50 :: string where
  "fenced_reply_50 = ''```json'' @ [newline] @ reply_50 @ [newline] @ ''```''"

definition reply_50_env :: "unit Env" where
  "reply_50_env =
     \<lparr>fetch_blob = (\<lambda>dataUrl. Inr ()),
      storage_upload = (\<lambda>blob. Inr (Some ''https://cdn.example/x.jpg'')),
      generateText = (\<lambda>imageUrl. Inr fenced_reply_50),
      JSON_parse = (\<lambda>text. if text = reply_50
         then Some (JObject [(''classification'', JString ''recycle''), (''confidence'', JNumber 50)])
         else None)\<rparr>"

definition compost_env :: "unit Env" where
  "compost_env =
     \<lparr>fetch_blob = (\<lambda>dataUrl. Inr ()),
      storage_upload = (\<lambda>blob. Inr (Some ''https://cdn.example/x.jpg'')),
      generateText = (\<lambda>imageUrl. Inr ''{\"classification\":\"compost\",\"confidence\":90}''),
      JSON_parse = (\<lambda>text. if text = ''{\"classification\":\"compost\",\"confidence\":90}''
         then Some (JObject [(''classification'', JString ''compost''), (''confidence'', JNumber 90)])
         else None)\<rparr>"

definition prose_env :: "unit Env" where
  "prose_env =
     \<lparr>fetch_blob = (\<lambda>dataUrl. Inr ()),
      storage_upload = (\<lambda>blob. Inr (Some ''https://cdn.example/x.jpg'')),
      generateText = (\<lambda>imageUrl. Inr ''This looks like a plastic bottle.''),
      JSON_parse = (\<lambda>text. None)\<rparr>"

text \<open>The events that are timer ticks.\<close>

definition timer_event :: "event \<Rightarrow> bool" where
  "timer_event e = (case e of TimerFires h now frame \<Rightarrow> True | AttemptSettles k \<Rightarrow> False)"

section \<open>Numbers\<close>

lemma bit_length_bounds:
  "0 < n \<Longrightarrow> 0 < bit_length n \<and> 2 ^ nat (bit_length n - 1) \<le> n \<and> n < 2 ^ nat (bit_length n)"
proof (induction n rule: bit_length.induct)
  case (1 n)
  show ?case
  proof (cases "n div 2 = 0")
    case True
    then have "n = 1" using 1(2) by presburger
    then show ?thesis
      by (simp add: bit_length.simps [of 1] bit_length.simps [of 0])
  next
    case False
    then have pos: "0 < n div 2" using 1(2) by presburger
    define b where "b = bit_length (n div 2)"
    have ih: "0 < b \<and> 2 ^ nat (b - 1) \<le> n div 2 \<and> n div 2 < 2 ^ nat b"
      using 1(1) 1(2) pos by (simp add: b_def)
    have bl: "bit_length n = 1 + b"
      using 1(2) by (simp add: bit_length.simps [of n] b_def)
    have bpos: "0 < b" using ih by simp
    have e1: "nat (1 + b - 1) = Suc (nat (b - 1))"
      using bpos by arith
    have e2: "nat (1 + b) = Suc (nat b)"
      using bpos by arith
    have lo: "(2::int) ^ Suc (nat (b - 1)) \<le> n"
    proof -
      have "(2::int) ^ Suc (nat (b - 1)) \<le> 2 * (n div 2)"
        using ih by simp
      also have "\<dots> \<le> n" by presburger
      finally show ?thesis .
    qed
    have hi: "n < (2::int) ^ Suc (nat b)"
    proof -
      have "n div 2 + 1 \<le> 2 ^ nat b" using ih by simp
      then have "2 * (n div 2) + 2 \<le> 2 ^ Suc (nat b)" by simp
      moreover have "n < 2 * (n div 2) + 2" by presburger
      ultimately show ?thesis by linarith
    qed
    show ?thesis
      using ih lo hi by (simp only: bl e1 e2) simp
  qed
qed

lemma bit_length_powi:
  assumes "0 < n"
  shows "(2::rat) powi (bit_length n - 1) \<le> of_int n" and "of_int n < (2::rat) powi bit_length n"
proof -
  have b: "0 < bit_length n" "2 ^ nat (bit_length n - 1) \<le> n" "n < 2 ^ nat (bit_length n)"
    using bit_length_bounds [OF assms] by simp_all
  have "(of_int (2 ^ nat (bit_length n - 1)) :: rat) \<le> of_int n"
    using b(2) by (simp only: of_int_le_iff)
  then show "(2::rat) powi (bit_length n - 1) \<le> of_int n"
    using b(1) by (simp add: power_int_def)
  have "(of_int n :: rat) < of_int (2 ^ nat (bit_length n))"
    using b(3) by (simp only: of_int_less_iff)
  then show "of_int n < (2::rat) powi bit_length n"
    using b(1) by (simp add: power_int_def)
qed

text \<open>\<open>ilog2\<close> is the binary exponent.\<close>

lemma ilog2_bounds:
  assumes "0 < x"
  shows "2 powi ilog2 x \<le> x \<and> x < 2 powi (ilog2 x + 1)"
proof -
  obtain p q where pq: "quotient_of x = (p, q)"
    by (cases "quotient_of x")
  have q: "0 < q" using pq by (rule quotient_of_denom_pos)
  have x: "x = of_int p / of_int q" using pq by (rule quotient_of_div)
  have p: "0 < p"
    using assms q x by (simp add: zero_less_divide_iff)
  define d where "d = bit_length p - bit_length q"
  note bp = bit_length_powi [OF p] and bq = bit_length_powi [OF q]
  have qpos: "(0::rat) < of_int q" using q by simp
  have lo: "2 powi (d - 1) < x"
  proof -
    have "(2::rat) powi (d - 1) * of_int q < 2 powi (d - 1) * 2 powi bit_length q"
      using bq(2) by (simp add: mult_strict_left_mono)
    also have "\<dots> = 2 powi (bit_length p - 1)"
      by (simp add: d_def flip: power_int_add)
    also have "\<dots> \<le> of_int p" using bp(1) .
    finally show ?thesis
      using qpos by (simp add: x pos_less_divide_eq)
  qed
  have hi: "x < 2 powi (d + 1)"
  proof -
    have "of_int p < (2::rat) powi bit_length p" using bp(2) .
    also have "\<dots> = 2 powi (d + 1) * 2 powi (bit_length q - 1)"
      by (simp add: d_def flip: power_int_add)
    also have "\<dots> \<le> 2 powi (d + 1) * of_int q"
      using bq(1) by (simp add: mult_left_mono)
    finally show ?thesis
      using qpos by (simp add: x pos_divide_less_eq)
  qed
  show ?thesis
  proof (cases "2 powi d \<le> x")
    case True
    then have "ilog2 x = d"
      by (simp add: ilog2_def pq d_def Let_def)
    then show ?thesis using True hi by simp
  next
    case False
    then have "ilog2 x = d - 1"
      by (simp add: ilog2_def pq d_def Let_def)
    then show ?thesis using False lo by simp
  qed
qed

lemma two_powi_less_cancel: "(2::rat) powi m < 2 powi n \<Longrightarrow> m < n"
  using power_int_increasing [of n m "2::rat"] by (cases "m < n") auto

lemma ilog2_less: "0 < x \<Longrightarrow> x < 2 powi k \<Longrightarrow> ilog2 x < k"
  using ilog2_bounds [of x] two_powi_less_cancel [of "ilog2 x" k] by simp

lemma ilog2_ge: "0 < x \<Longrightarrow> 2 powi k \<le> x \<Longrightarrow> k \<le> ilog2 x"
  using ilog2_bounds [of x] two_powi_less_cancel [of k "ilog2 x + 1"] by simp

lemma round_ties_even_error: "\<bar>of_int (round_ties_even z) - z\<bar> \<le> 1 / 2"
proof -
  have "of_int \<lfloor>z\<rfloor> \<le> z" "z < of_int \<lfloor>z\<rfloor> + 1"
    by linarith+
  then show ?thesis
    by (auto simp: round_ties_even_def Let_def)
qed

lemma round_ties_even_of_int [simp]: "round_ties_even (of_int k) = k"
  by (simp add: round_ties_even_def)

lemma round_ties_even_ge: "of_int k \<le> z \<Longrightarrow> k \<le> round_ties_even z"
proof -
  assume "of_int k \<le> z"
  then have "k \<le> \<lfloor>z\<rfloor>" by (simp add: le_floor_iff)
  then show ?thesis
    by (auto simp: round_ties_even_def Let_def)
qed

lemma round_ties_even_le: "z \<le> of_int k \<Longrightarrow> round_ties_even z \<le> k"
proof (cases "z = of_int k")
  case True
  then show ?thesis by simp
next
  case False
  assume "z \<le> of_int k"
  then have "z < of_int k" using False by simp
  then have "\<lfloor>z\<rfloor> < k" by (simp add: floor_less_iff)
  then show ?thesis
    by (auto simp: round_ties_even_def Let_def)
qed

text \<open>Rounding moves a number by at most half a step of its grid.\<close>

lemma round53_error:
  assumes "x \<noteq> 0"
  shows "\<bar>round53 x - x\<bar> \<le> 2 powi (grid x - 1)"
proof -
  define g where "g = (2::rat) powi grid x"
  define m where "m = round_ties_even (\<bar>x\<bar> / g)"
  have g: "0 < g" by (simp add: g_def)
  have "x = sgn x * \<bar>x\<bar>" by (simp add: mult_sgn_abs)
  then have "round53 x - x = sgn x * (of_int m * g) - sgn x * \<bar>x\<bar>"
    using assms by (simp add: round53_def g_def m_def)
  then have "round53 x - x = sgn x * (of_int m * g - \<bar>x\<bar>)"
    by (simp add: right_diff_distrib)
  then have "\<bar>round53 x - x\<bar> = \<bar>of_int m * g - \<bar>x\<bar>\<bar>"
    using assms by (simp add: abs_mult abs_sgn_eq)
  also have "of_int m * g - \<bar>x\<bar> = g * (of_int m - \<bar>x\<bar> / g)"
    using g by (simp add: algebra_simps)
  also have "\<bar>g * (of_int m - \<bar>x\<bar> / g)\<bar> = g * \<bar>of_int m - \<bar>x\<bar> / g\<bar>"
    using g by (simp add: abs_mult)
  also have "\<dots> \<le> g * (1 / 2)"
    using g round_ties_even_error [of "\<bar>x\<bar> / g"] by (intro mult_left_mono) (simp_all add: m_def)
  also have "\<dots> = 2 powi (grid x - 1)"
    by (simp add: g_def power_int_diff)
  finally show ?thesis .
qed

lemma round53_rel_error:
  assumes "2 powi (- 1022) \<le> x"
  shows "\<bar>round53 x - x\<bar> \<le> x * 2 powi (- 53)"
proof -
  have pos: "0 < x"
    using assms by (rule less_le_trans [rotated]) simp
  have e: "- 1022 \<le> ilog2 x"
    using pos assms by (rule ilog2_ge)
  then have g: "grid x = ilog2 x - 52"
    using pos by (simp add: grid_def)
  have "\<bar>round53 x - x\<bar> \<le> 2 powi (grid x - 1)"
    using pos by (intro round53_error) simp
  also have "\<dots> = 2 powi (ilog2 x + (- 53))"
    by (simp add: g)
  also have "\<dots> = 2 powi ilog2 x * 2 powi (- 53)"
    by (rule power_int_add) simp
  also have "\<dots> \<le> x * 2 powi (- 53)"
    using ilog2_bounds [OF pos] by (intro mult_right_mono) simp_all
  finally show ?thesis .
qed

text \<open>A number on its grid is a double.\<close>

lemma round53_exact:
  assumes "x \<noteq> 0" and "\<bar>x\<bar> / 2 powi grid x = of_int k"
  shows "round53 x = x"
proof -
  have "of_int k * (2::rat) powi grid x = \<bar>x\<bar>"
    using assms(2) by (simp add: field_simps)
  then show ?thesis
    using assms by (simp add: round53_def mult_sgn_abs)
qed

lemma on_grid:
  assumes "g \<le> 0"
  shows "of_int k / (2::rat) powi g = of_int (k * 2 ^ nat (- g))"
proof -
  have "(2::rat) powi g = 1 / 2 ^ nat (- g)"
    using assms by (simp add: power_int_def field_simps)
  then show ?thesis by simp
qed

lemma grid_of_int:
  assumes "n \<noteq> 0" and "\<bar>n\<bar> < 2 ^ 53"
  shows "grid (of_int n) \<le> 0"
proof -
  have "(0::rat) < \<bar>of_int n\<bar>" using assms(1) by simp
  moreover have "\<bar>of_int n :: rat\<bar> < 2 powi 53"
  proof -
    have "(of_int \<bar>n\<bar> :: rat) < of_int (2 ^ 53)"
      using assms(2) by (simp only: of_int_less_iff)
    then show ?thesis by simp
  qed
  ultimately have "ilog2 \<bar>of_int n\<bar> < 53"
    by (rule ilog2_less)
  then show ?thesis
    by (simp add: grid_def)
qed

lemma round53_two_53:
  "round53 9007199254740992 = 9007199254740992"
  "round53 (- 9007199254740992) = - 9007199254740992"
  by code_simp+

text \<open>Every integer up to \<open>2 ^ 53\<close> in absolute value is a double.\<close>

lemma round53_of_int:
  assumes "\<bar>n\<bar> \<le> 2 ^ 53"
  shows "round53 (of_int n) = of_int n"
proof (cases "\<bar>n\<bar> = 2 ^ 53")
  case True
  then have "n = 9007199254740992 \<or> n = - 9007199254740992" by (simp add: abs_if split: if_splits)
  then show ?thesis
    using round53_two_53 by auto
next
  case big: False
  show ?thesis
  proof (cases "n = 0")
    case True
    then show ?thesis by (simp add: round53_def)
  next
    case False
    have lt: "\<bar>n\<bar> < 2 ^ 53" using assms big by simp
    have g: "grid (of_int n) \<le> 0"
      using False lt by (rule grid_of_int)
    have eq: "\<bar>of_int n :: rat\<bar> / 2 powi grid (of_int n)
        = of_int (\<bar>n\<bar> * 2 ^ nat (- grid (of_int n)))"
      using on_grid [OF g, of "\<bar>n\<bar>"] by simp
    show ?thesis
    proof (rule round53_exact)
      show "(of_int n :: rat) \<noteq> 0" using False by simp
      show "\<bar>of_int n :: rat\<bar> / 2 powi grid (of_int n)
        = of_int (\<bar>n\<bar> * 2 ^ nat (- grid (of_int n)))"
        by (rule eq)
    qed
  qed
qed

text \<open>Rounding does not cross an integer, where the grid is finer than the integers.\<close>

lemma round53_ge_int:
  assumes "x \<noteq> 0" and "grid x \<le> 0" and "of_int k \<le> x"
  shows "of_int k \<le> round53 x"
proof -
  define g where "g = (2::rat) powi grid x"
  define N where "N = nat (- grid x)"
  have g: "0 < g" by (simp add: g_def)
  have regrid: "of_int (j * 2 ^ N) * g = of_int j" for j
  proof -
    have "of_int j / g = of_int (j * 2 ^ N)"
      unfolding g_def N_def by (rule on_grid [OF assms(2)])
    then show ?thesis using g by (simp add: field_simps)
  qed
  show ?thesis
  proof (cases "0 < x")
    case True
    have a: "of_int k / g = of_int (k * 2 ^ N)"
      unfolding g_def N_def by (rule on_grid [OF assms(2)])
    have b: "of_int k / g \<le> \<bar>x\<bar> / g"
      using True assms(3) g by (intro divide_right_mono) simp_all
    have "of_int (k * 2 ^ N) \<le> \<bar>x\<bar> / g"
      unfolding a [symmetric] by (rule b)
    then have "k * 2 ^ N \<le> round_ties_even (\<bar>x\<bar> / g)"
      by (rule round_ties_even_ge)
    then have "(of_int (k * 2 ^ N) :: rat) \<le> of_int (round_ties_even (\<bar>x\<bar> / g))"
      by (simp only: of_int_le_iff)
    then have "of_int (k * 2 ^ N) * g \<le> of_int (round_ties_even (\<bar>x\<bar> / g)) * g"
      using g by (simp only: mult_le_cancel_right_pos)
    then have "of_int k \<le> of_int (round_ties_even (\<bar>x\<bar> / g)) * g"
      by (simp only: regrid)
    then show ?thesis
      using True assms(1) by (simp add: round53_def g_def)
  next
    case False
    then have neg: "x < 0" using assms(1) by simp
    have a: "of_int (- k) / g = of_int (- k * 2 ^ N)"
      unfolding g_def N_def by (rule on_grid [OF assms(2)])
    have b: "\<bar>x\<bar> / g \<le> of_int (- k) / g"
      using neg assms(3) g by (intro divide_right_mono) simp_all
    have "\<bar>x\<bar> / g \<le> of_int (- k * 2 ^ N)"
      unfolding a [symmetric] by (rule b)
    then have "round_ties_even (\<bar>x\<bar> / g) \<le> - k * 2 ^ N"
      by (rule round_ties_even_le)
    then have "(of_int (round_ties_even (\<bar>x\<bar> / g)) :: rat) \<le> of_int (- k * 2 ^ N)"
      by (simp only: of_int_le_iff)
    then have "of_int (round_ties_even (\<bar>x\<bar> / g)) * g \<le> of_int (- k * 2 ^ N) * g"
      using g by (simp only: mult_le_cancel_right_pos)
    then have "of_int (round_ties_even (\<bar>x\<bar> / g)) * g \<le> of_int (- k)"
      by (simp only: regrid)
    then show ?thesis
      using neg assms(1) by (simp add: round53_def g_def)
  qed
qed

text \<open>
  \<open>Math.floor(n / 500)\<close> is the integer quotient for every integer \<open>n\<close> up to \<open>2 ^ 53\<close>: the
  quotient is rounded by less than \<open>1 / 500\<close>, its distance from the next integer.
\<close>

lemma floor_round53_div:
  assumes "\<bar>n\<bar> \<le> 2 ^ 53"
  shows "\<lfloor>round53 (of_int n / 500)\<rfloor> = n div 500"
proof (cases "n = 0")
  case True
  then show ?thesis by (simp add: round53_def)
next
  case False
  define x :: rat where "x = of_int n / 500"
  define k where "k = n div 500"
  have x0: "x \<noteq> 0" using False by (simp add: x_def)
  have k: "k = \<lfloor>x\<rfloor>"
    using floor_divide_of_int_eq [of n 500, where ?'a = rat] by (simp add: x_def k_def)
  have lo: "of_int k \<le> x" unfolding k by linarith
  have "n \<le> 500 * k + 499" unfolding k_def by presburger
  then have "(of_int n :: rat) \<le> of_int (500 * k + 499)"
    by (simp only: of_int_le_iff)
  then have hi: "x \<le> of_int k + 499 / 500"
    by (simp add: x_def)
  have "\<bar>x\<bar> < 2 powi 45"
  proof -
    have "(of_int \<bar>n\<bar> :: rat) \<le> of_int (2 ^ 53)"
      using assms by (simp only: of_int_le_iff)
    then show ?thesis by (simp add: x_def)
  qed
  moreover have "0 < \<bar>x\<bar>" using x0 by simp
  ultimately have "ilog2 \<bar>x\<bar> < 45" by (intro ilog2_less)
  then have g: "grid x \<le> - 8" by (simp add: grid_def)
  have "(2::rat) powi (grid x - 1) \<le> 2 powi (- 9)"
    using g by (intro power_int_increasing) simp_all
  then have err: "\<bar>round53 x - x\<bar> \<le> 1 / 512"
    using round53_error [OF x0] by simp
  have "of_int k \<le> round53 x"
    using x0 g lo by (intro round53_ge_int) simp_all
  moreover have "round53 x < of_int k + 1"
    using err hi by linarith
  ultimately have "\<lfloor>round53 x\<rfloor> = k"
    by (intro floor_unique) simp_all
  then show ?thesis by (simp add: x_def k_def)
qed

lemma to_double_Num: "\<bar>round53 x\<bar> < 2 ^ 1024 \<Longrightarrow> to_double x = Num (round53 x)"
  by (simp add: to_double_def)

lemma to_double_of_int: "\<bar>n\<bar> \<le> 2 ^ 53 \<Longrightarrow> to_double (of_int n) = Num (of_int n)"
proof -
  assume n: "\<bar>n\<bar> \<le> 2 ^ 53"
  have "(of_int \<bar>n\<bar> :: rat) \<le> of_int (2 ^ 53)"
    using n by (simp only: of_int_le_iff)
  then have "\<bar>of_int n :: rat\<bar> < 2 ^ 1024" by simp
  then show ?thesis
    by (simp add: to_double_Num round53_of_int [OF n])
qed

section \<open>Scoring\<close>

lemma to_double_integer:
  assumes "q = of_int \<lfloor>q\<rfloor>" and "\<bar>q\<bar> \<le> 2 ^ 53"
  shows "to_double q = Num q"
proof -
  have "\<bar>(of_int \<lfloor>q\<rfloor> :: rat)\<bar> \<le> of_int (2 ^ 53)"
    using assms by simp
  then have "(of_int \<bar>\<lfloor>q\<rfloor>\<bar> :: rat) \<le> of_int (2 ^ 53)"
    by simp
  then have "\<bar>\<lfloor>q\<rfloor>\<bar> \<le> 2 ^ 53"
    by (simp only: of_int_le_iff)
  then have "to_double (of_int \<lfloor>q\<rfloor>) = Num (of_int \<lfloor>q\<rfloor>)"
    by (rule to_double_of_int)
  then show ?thesis
    using assms(1) by simp
qed

lemma js_plus_int:
  "safe_integer (a + b) \<Longrightarrow> js_plus (Num (of_int a)) (Num (of_int b)) = Num (of_int (a + b))"
  using to_double_of_int [of "a + b"] by (simp add: safe_integer_def js_plus.simps)

lemma js_plus_one:
  "safe_integer (a + 1) \<Longrightarrow> js_plus (Num (of_int a)) (Num 1) = Num (of_int (a + 1))"
  using js_plus_int [of a 1] by simp

lemma js_plus_zero:
  "safe_integer a \<Longrightarrow> js_plus (Num (of_int a)) (Num 0) = Num (of_int a)"
  using js_plus_int [of a 0] by simp

text \<open>The level is exact for every score that is an integer up to \<open>2 ^ 53\<close>.\<close>

lemma div_500_safe:
  assumes "\<bar>n\<bar> \<le> (2::int) ^ 53"
  shows "\<bar>n div 500\<bar> \<le> 2 ^ 53" and "\<bar>n div 500 + 1\<bar> \<le> 2 ^ 53"
proof -
  define k where "k = n div 500"
  have "n = 500 * k + n mod 500" "0 \<le> n mod 500" "n mod 500 < 500"
    by (simp_all add: k_def)
  then have "500 * k \<le> n" "n < 500 * k + 500"
    by linarith+
  moreover have "- 9007199254740992 \<le> n" "n \<le> 9007199254740992"
    using assms by simp_all
  ultimately have "- 9007199254740992 \<le> k" "k + 1 \<le> 9007199254740992"
    by linarith+
  then show "\<bar>n div 500\<bar> \<le> 2 ^ 53" and "\<bar>n div 500 + 1\<bar> \<le> 2 ^ 53"
    by (simp_all add: k_def)
qed

lemma js_level:
  assumes "safe_integer n"
  shows "js_plus (Math_floor (js_divide (Num (of_int n)) (Num 500))) (Num 1)
    = Num (of_int (n div 500 + 1))"
proof -
  have n: "\<bar>n\<bar> \<le> 2 ^ 53"
    using assms by (simp add: safe_integer_def)
  define y where "y = round53 (of_int n / 500)"
  have fl: "\<lfloor>y\<rfloor> = n div 500"
    unfolding y_def using n by (rule floor_round53_div)
  have f: "of_int \<lfloor>y\<rfloor> \<le> y" "y < of_int \<lfloor>y\<rfloor> + 1"
    by linarith+
  have "(of_int \<bar>n div 500\<bar> :: rat) \<le> of_int (2 ^ 53)"
    using div_500_safe(1) [OF n] by (simp only: of_int_le_iff)
  then have "\<bar>(of_int (n div 500) :: rat)\<bar> \<le> 9007199254740992"
    by simp
  then have "\<bar>y\<bar> \<le> 9007199254740992 + 1"
    using f unfolding fl by linarith
  then have "\<bar>round53 (of_int n / 500)\<bar> < 2 ^ 1024"
    unfolding y_def by (rule le_less_trans) simp
  then have "js_divide (Num (of_int n)) (Num 500) = Num y"
    by (simp add: to_double_Num y_def js_divide.simps)
  then have a: "Math_floor (js_divide (Num (of_int n)) (Num 500)) = Num (of_int (n div 500))"
    by (simp add: Math_floor_def fl)
  have "safe_integer (n div 500 + 1)"
    using div_500_safe(2) [OF n] by (simp add: safe_integer_def)
  then have "js_plus (Num (of_int (n div 500))) (Num 1) = Num (of_int (n div 500 + 1))"
    by (rule js_plus_one)
  then show ?thesis
    unfolding a .
qed

lemma points_Some:
  "points answer (Some r) = (if answer = classification r then or_zero (confidence r) else Num 0)"
  by (simp add: points_def isCorrect_def)

lemma or_zero_Num: "or_zero (Num q) = Num q"
  by (simp add: or_zero_def)

text \<open>Doubles beyond \<open>2 ^ 53\<close>: the odd integers are missing.\<close>

lemma round53_beyond:
  "round53 9007199254741067 = 9007199254741068"
  "round53 9007199254740993 = 9007199254740992"
  "round53 4503599627370496000 = 4503599627370496000"
  by code_simp+

lemma to_double_beyond:
  "to_double 9007199254741067 = Num 9007199254741068"
  "to_double 9007199254740993 = Num 9007199254740992"
  "to_double 4503599627370496000 = Num 4503599627370496000"
  by (simp_all add: to_double_Num round53_beyond)

lemma to_double_two_53: "to_double 9007199254740992 = Num 9007199254740992"
  using to_double_of_int [of 9007199254740992] by simp

text \<open>
  Claim C1, as stated, fails beyond \<open>2 ^ 53\<close>: after a correct answer against a result
  with the confidence \<open>2 ^ 53\<close>, a correct answer against the confidence 75 adds 76.
\<close>

theorem handleUserAnswer_contract_counterexample:
  "score (play initialGameStats
       [(Recycle, Some \<lparr>classification = Recycle, confidence = Num 9007199254740992,
                        explanation = ''x'', tips = []\<rparr>)])
     = Num 9007199254740992
   \<and> score (handleUserAnswer Recycle
        (Some \<lparr>classification = Recycle, confidence = Num 75, explanation = ''y'', tips = []\<rparr>)
        (play initialGameStats
          [(Recycle, Some \<lparr>classification = Recycle, confidence = Num 9007199254740992,
                           explanation = ''x'', tips = []\<rparr>)]))
     = Num 9007199254741068
   \<and> (9007199254741068::rat) \<noteq> 9007199254740992 + 75"
  by (simp add: initialGameStats_def handleUserAnswer_def points_Some or_zero_def
      js_plus.simps to_double_two_53 to_double_beyond)

text \<open>
  Claim C1, amended. For previous statistics and a confidence that are integers, with
  the sums the update forms at most \<open>2 ^ 53\<close> in absolute value, the update decides
  correctness by equality of the answer with the result's classification, adds the
  result's confidence to the score when correct and nothing otherwise, sets the streak
  to the previous streak plus one when correct and to zero otherwise, adds one to
  \<open>totalAnswers\<close>, adds one to \<open>correctAnswers\<close> exactly when correct, and sets the level
  to the new score divided by 500, rounded down, plus one. The two examples of the
  specification are instances.
\<close>

theorem handleUserAnswer_contract:
  assumes "score prev = Num (of_int s)" and "streak prev = Num (of_int k)"
    and "totalAnswers prev = Num (of_int t)" and "correctAnswers prev = Num (of_int ca)"
    and "confidence r = Num (of_int c)"
    and "list_all safe_integer [s, s + c, k + 1, t + 1, ca, ca + 1]"
  shows "score (handleUserAnswer answer (Some r) prev) =
       Num (of_int (s + (if answer = classification r then c else 0)))
   \<and> streak (handleUserAnswer answer (Some r) prev) =
       Num (of_int (if answer = classification r then k + 1 else 0))
   \<and> totalAnswers (handleUserAnswer answer (Some r) prev) = Num (of_int (t + 1))
   \<and> correctAnswers (handleUserAnswer answer (Some r) prev) =
       Num (of_int (ca + (if answer = classification r then 1 else 0)))
   \<and> level (handleUserAnswer answer (Some r) prev) =
       Num (of_int ((s + (if answer = classification r then c else 0)) div 500 + 1))
   \<and> (answer \<noteq> classification r' \<longrightarrow>
        handleUserAnswer answer (Some r')
          \<lparr>score = Num 100, streak = Num 2, totalAnswers = Num 5, correctAnswers = Num 3,
           level = Num 1\<rparr>
        = \<lparr>score = Num 100, streak = Num 0, totalAnswers = Num 6, correctAnswers = Num 3,
           level = Num 1\<rparr>)
   \<and> score (handleUserAnswer Recycle
        (Some \<lparr>classification = Recycle, confidence = Num 90, explanation = e, tips = ts\<rparr>)
        \<lparr>score = Num 410, streak = Num 1, totalAnswers = ta, correctAnswers = cb,
         level = lv\<rparr>) = Num 500
   \<and> level (handleUserAnswer Recycle
        (Some \<lparr>classification = Recycle, confidence = Num 90, explanation = e, tips = ts\<rparr>)
        \<lparr>score = Num 410, streak = Num 1, totalAnswers = ta, correctAnswers = cb,
         level = lv\<rparr>) = Num 2"
proof -
  define p where "p = (if answer = classification r then c else 0)"
  define q where "q = (if answer = classification r then k + 1 else 0)"
  define u where "u = ca + (if answer = classification r then 1 else 0)"
  have safe: "safe_integer s" "safe_integer (s + c)" "safe_integer (k + 1)"
    "safe_integer (t + 1)" "safe_integer ca" "safe_integer (ca + 1)"
    using assms(6) by simp_all
  have pts: "points answer (Some r) = Num (of_int p)"
    by (simp add: points_Some assms(5) or_zero_Num p_def)
  have sum: "safe_integer (s + p)"
    using safe by (simp add: p_def)
  have sc: "js_plus (score prev) (points answer (Some r)) = Num (of_int (s + p))"
    unfolding assms(1) pts using sum by (rule js_plus_int)
  have lv: "js_plus (Math_floor (js_divide (Num (of_int (s + p))) (Num 500))) (Num 1)
      = Num (of_int ((s + p) div 500 + 1))"
    using sum by (rule js_level)
  have st: "(if isCorrect answer (Some r) then js_plus (streak prev) (Num 1) else Num 0)
      = Num (of_int q)"
    unfolding assms(2) using js_plus_one [OF safe(3)] by (simp add: q_def isCorrect_def)
  have tt: "js_plus (totalAnswers prev) (Num 1) = Num (of_int (t + 1))"
    unfolding assms(3) using safe(4) by (rule js_plus_one)
  have cc: "js_plus (correctAnswers prev) (if isCorrect answer (Some r) then Num 1 else Num 0)
      = Num (of_int u)"
    unfolding assms(4) using js_plus_one [OF safe(6)] js_plus_zero [OF safe(5)]
    by (simp add: u_def isCorrect_def)
  have "score (handleUserAnswer answer (Some r) prev) = Num (of_int (s + p))
   \<and> streak (handleUserAnswer answer (Some r) prev) = Num (of_int q)
   \<and> totalAnswers (handleUserAnswer answer (Some r) prev) = Num (of_int (t + 1))
   \<and> correctAnswers (handleUserAnswer answer (Some r) prev) = Num (of_int u)
   \<and> level (handleUserAnswer answer (Some r) prev) = Num (of_int ((s + p) div 500 + 1))"
    unfolding handleUserAnswer_def sc lv st tt cc by simp
  then have general: "score (handleUserAnswer answer (Some r) prev) =
       Num (of_int (s + (if answer = classification r then c else 0)))
   \<and> streak (handleUserAnswer answer (Some r) prev) =
       Num (of_int (if answer = classification r then k + 1 else 0))
   \<and> totalAnswers (handleUserAnswer answer (Some r) prev) = Num (of_int (t + 1))
   \<and> correctAnswers (handleUserAnswer answer (Some r) prev) =
       Num (of_int (ca + (if answer = classification r then 1 else 0)))
   \<and> level (handleUserAnswer answer (Some r) prev) =
       Num (of_int ((s + (if answer = classification r then c else 0)) div 500 + 1))"
    unfolding p_def q_def u_def .
  have ex1: "handleUserAnswer answer (Some r')
          \<lparr>score = Num 100, streak = Num 2, totalAnswers = Num 5, correctAnswers = Num 3,
           level = Num 1\<rparr>
        = \<lparr>score = Num 100, streak = Num 0, totalAnswers = Num 6, correctAnswers = Num 3,
           level = Num 1\<rparr>" if "answer \<noteq> classification r'"
  proof -
    have a: "js_plus (Num 100) (Num 0) = Num 100"
      using js_plus_zero [of 100] by (simp add: safe_integer_def)
    have b: "js_plus (Num 5) (Num 1) = Num 6"
      using js_plus_one [of 5] by (simp add: safe_integer_def)
    have c: "js_plus (Num 3) (Num 0) = Num 3"
      using js_plus_zero [of 3] by (simp add: safe_integer_def)
    have d: "js_plus (Math_floor (js_divide (Num 100) (Num 500))) (Num 1) = Num 1"
      using js_level [of 100] by (simp add: safe_integer_def)
    show ?thesis
      using that by (simp add: handleUserAnswer_def points_Some isCorrect_def a b c d)
  qed
  have f: "js_plus (Num 410) (Num 90) = Num 500"
    using js_plus_int [of 410 90] by (simp add: safe_integer_def)
  have g: "js_plus (Math_floor (js_divide (Num 500) (Num 500))) (Num 1) = Num 2"
    using js_level [of 500] by (simp add: safe_integer_def)
  have ex2: "score (handleUserAnswer Recycle
        (Some \<lparr>classification = Recycle, confidence = Num 90, explanation = e, tips = ts\<rparr>)
        \<lparr>score = Num 410, streak = Num 1, totalAnswers = ta, correctAnswers = cb,
         level = lv\<rparr>) = Num 500
   \<and> level (handleUserAnswer Recycle
        (Some \<lparr>classification = Recycle, confidence = Num 90, explanation = e, tips = ts\<rparr>)
        \<lparr>score = Num 410, streak = Num 1, totalAnswers = ta, correctAnswers = cb,
         level = lv\<rparr>) = Num 2"
    by (simp add: handleUserAnswer_def points_Some or_zero_def f g)
  show ?thesis
    using general ex1 ex2 by blast
qed

theorem handleUserAnswer_contract_witness:
  "score \<lparr>score = Num 410, streak = Num 1, totalAnswers = Num 5, correctAnswers = Num 3,
          level = Num 1\<rparr> = Num (of_int 410)
   \<and> confidence \<lparr>classification = Recycle, confidence = Num 90, explanation = ''a can'',
          tips = []\<rparr> = Num (of_int 90)
   \<and> list_all safe_integer [410, 410 + 90, 1 + 1, 5 + 1, 3, 3 + 1]
   \<and> score (handleUserAnswer Recycle
        (Some \<lparr>classification = Recycle, confidence = Num 90, explanation = ''a can'',
          tips = []\<rparr>)
        \<lparr>score = Num 410, streak = Num 1, totalAnswers = Num 5, correctAnswers = Num 3,
         level = Num 1\<rparr>) = Num 500
   \<and> level (handleUserAnswer Recycle
        (Some \<lparr>classification = Recycle, confidence = Num 90, explanation = ''a can'',
          tips = []\<rparr>)
        \<lparr>score = Num 410, streak = Num 1, totalAnswers = Num 5, correctAnswers = Num 3,
         level = Num 1\<rparr>) = Num 2
   \<and> Trash \<noteq> classification
        \<lparr>classification = Recycle, confidence = Num 90, explanation = ''a can'', tips = []\<rparr>
   \<and> handleUserAnswer Trash
        (Some \<lparr>classification = Recycle, confidence = Num 90, explanation = ''a can'',
          tips = []\<rparr>)
        \<lparr>score = Num 100, streak = Num 2, totalAnswers = Num 5, correctAnswers = Num 3,
         level = Num 1\<rparr>
      = \<lparr>score = Num 100, streak = Num 0, totalAnswers = Num 6, correctAnswers = Num 3,
         level = Num 1\<rparr>"
proof -
  have h: "list_all safe_integer [410, 410 + 90, 1 + 1, 5 + 1, 3, 3 + 1]"
    by (simp add: safe_integer_def)
  show ?thesis
    using h handleUserAnswer_contract
      [where prev = "\<lparr>score = Num 410, streak = Num 1, totalAnswers = Num 5,
          correctAnswers = Num 3, level = Num 1\<rparr>"
        and s = 410 and k = 1 and t = 5 and ca = 3 and c = 90 and answer = Recycle
        and r = "\<lparr>classification = Recycle, confidence = Num 90, explanation = ''a can'',
          tips = []\<rparr>"
        and r' = "\<lparr>classification = Recycle, confidence = Num 90, explanation = ''a can'',
          tips = []\<rparr>", OF _ _ _ _ _ h]
      handleUserAnswer_contract
      [where prev = "\<lparr>score = Num 410, streak = Num 1, totalAnswers = Num 5,
          correctAnswers = Num 3, level = Num 1\<rparr>"
        and s = 410 and k = 1 and t = 5 and ca = 3 and c = 90 and answer = Trash
        and r = "\<lparr>classification = Recycle, confidence = Num 90, explanation = ''a can'',
          tips = []\<rparr>"
        and r' = "\<lparr>classification = Recycle, confidence = Num 90, explanation = ''a can'',
          tips = []\<rparr>", OF _ _ _ _ _ h]
    by simp
qed

lemma counter_Num:
  assumes "counter x"
  obtains n where "x = Num (of_int n)" and "0 \<le> n" and "n \<le> 2 ^ 53"
proof -
  obtain q where q: "x = Num q" "q = of_int \<lfloor>q\<rfloor>" "0 \<le> q" "q \<le> 2 ^ 53"
    using assms by (cases x) (simp_all add: counter_def)
  have "0 \<le> \<lfloor>q\<rfloor>" using q(3) by simp
  moreover have "(of_int \<lfloor>q\<rfloor> :: rat) \<le> of_int (2 ^ 53)"
    using q(2,4) by simp
  then have "\<lfloor>q\<rfloor> \<le> 2 ^ 53" by (simp only: of_int_le_iff)
  ultimately show ?thesis
    using q(1,2) that [of "\<lfloor>q\<rfloor>"] by simp
qed

lemma counter_of_int: "0 \<le> n \<Longrightarrow> n \<le> 2 ^ 53 \<Longrightarrow> counter (Num (of_int n))"
proof -
  assume "0 \<le> n" and "n \<le> 2 ^ 53"
  then have "(0::rat) \<le> of_int n" "(of_int n :: rat) \<le> of_int (2 ^ 53)"
    by (simp_all only: of_int_le_iff of_int_0_le_iff)
  then show ?thesis by (simp add: counter_def)
qed

text \<open>A counter grows by one until \<open>2 ^ 53\<close>, where it stays.\<close>

lemma counter_increment:
  assumes "counter x"
  shows "counter (js_plus x (Num 1))" and "js_less_eq x (js_plus x (Num 1))"
proof -
  obtain n where n: "x = Num (of_int n)" "0 \<le> n" "n \<le> 2 ^ 53"
    using assms by (rule counter_Num)
  have "counter (js_plus x (Num 1)) \<and> js_less_eq x (js_plus x (Num 1))"
  proof (cases "n = 2 ^ 53")
    case True
    then have "js_plus x (Num 1) = x"
      by (simp add: n(1) js_plus.simps to_double_beyond)
    then show ?thesis
      using assms by (simp add: n(1))
  next
    case False
    then have "safe_integer (n + 1)"
      using n by (simp add: safe_integer_def)
    then have "js_plus x (Num 1) = Num (of_int (n + 1))"
      unfolding n(1) by (rule js_plus_one)
    moreover have "counter (Num (of_int (n + 1)))"
      using n False by (intro counter_of_int) simp_all
    ultimately show ?thesis
      by (simp add: n(1))
  qed
  then show "counter (js_plus x (Num 1))" and "js_less_eq x (js_plus x (Num 1))"
    by simp_all
qed

lemma counter_plus_zero:
  assumes "counter x"
  shows "js_plus x (Num 0) = x"
proof -
  obtain n where n: "x = Num (of_int n)" "0 \<le> n" "n \<le> 2 ^ 53"
    using assms by (rule counter_Num)
  have "safe_integer n" using n by (simp add: safe_integer_def)
  then show ?thesis
    unfolding n(1) by (rule js_plus_zero)
qed

lemma counter_nonneg_integer: "counter x \<Longrightarrow> nonneg_integer x"
  by (cases x) (simp_all add: counter_def nonneg_integer_def)

lemma counter_less_eq_refl: "counter x \<Longrightarrow> js_less_eq x x"
  by (cases x) (simp_all add: counter_def)

lemma counter_zero: "counter (Num 0)"
  by (simp add: counter_def)

text \<open>The points of an answer, as the code computes them and in exact arithmetic.\<close>

lemma points_step_points:
  assumes "nonneg_integer_confidence (answer, r)"
  shows "points answer r = Num (step_points (answer, r))"
    and "step_points (answer, r) = of_int \<lfloor>step_points (answer, r)\<rfloor>"
    and "0 \<le> step_points (answer, r)"
proof -
  have "points answer r = Num (step_points (answer, r))
    \<and> step_points (answer, r) = of_int \<lfloor>step_points (answer, r)\<rfloor>
    \<and> 0 \<le> step_points (answer, r)"
  proof (cases r)
    case None
    then show ?thesis
      by (simp add: points_def isCorrect_def step_points_def)
  next
    case (Some x)
    then obtain q where q: "confidence x = Num q" "0 \<le> q" "q = of_int \<lfloor>q\<rfloor>"
      using assms by (cases "confidence x") (simp_all add: nonneg_integer_confidence_def nonneg_integer_def)
    show ?thesis
      using q by (simp add: Some points_Some step_points_def or_zero_Num)
  qed
  then show "points answer r = Num (step_points (answer, r))"
    and "step_points (answer, r) = of_int \<lfloor>step_points (answer, r)\<rfloor>"
    and "0 \<le> step_points (answer, r)"
    by simp_all
qed

lemma handleUserAnswer_exact:
  assumes "GameStats_exact s a" and "nonneg_integer_confidence (answer, r)"
    and "a + step_points (answer, r) \<le> 2 ^ 53"
  shows "GameStats_exact (handleUserAnswer answer r s) (a + step_points (answer, r))"
    and "js_less_eq (score s) (score (handleUserAnswer answer r s))"
    and "js_less_eq (totalAnswers s) (totalAnswers (handleUserAnswer answer r s))"
    and "js_less_eq (correctAnswers s) (correctAnswers (handleUserAnswer answer r s))"
proof -
  define p where "p = step_points (answer, r)"
  note pt = points_step_points [OF assms(2), folded p_def]
  have s: "score s = Num a" "a = of_int \<lfloor>a\<rfloor>" "0 \<le> a" "a \<le> 2 ^ 53"
    "counter (streak s)" "counter (totalAnswers s)" "counter (correctAnswers s)"
    using assms(1) by (simp_all add: GameStats_exact_def)
  define n where "n = \<lfloor>a\<rfloor> + \<lfloor>p\<rfloor>"
  have n: "a + p = of_int n"
    using s(2) pt(2) by (simp add: n_def)
  have bound: "0 \<le> a + p" "a + p \<le> 2 ^ 53"
    using s(3) pt(3) assms(3) by (simp_all add: p_def)
  have "(0::rat) \<le> of_int n" "(of_int n :: rat) \<le> of_int (2 ^ 53)"
    using bound n by simp_all
  then have "0 \<le> n" "n \<le> 2 ^ 53"
    by (simp_all only: of_int_le_iff of_int_0_le_iff)
  then have safe: "safe_integer n"
    by (simp add: safe_integer_def)
  have "to_double (of_int n) = Num (of_int n)"
    using safe by (intro to_double_of_int) (simp add: safe_integer_def)
  then have sc: "js_plus (score s) (points answer r) = Num (of_int n)"
    by (simp add: s(1) pt(1) js_plus.simps n)
  have lv: "js_plus (Math_floor (js_divide (Num (of_int n)) (Num 500))) (Num 1)
      = Num (of_int (n div 500 + 1))"
    using safe by (rule js_level)
  have fl: "\<lfloor>(a + p) / 500\<rfloor> = n div 500"
    using floor_divide_of_int_eq [of n 500, where ?'a = rat] by (simp add: n)
  have st: "counter (if isCorrect answer r then js_plus (streak s) (Num 1) else Num 0)"
    using counter_increment(1) [OF s(5)] counter_zero by simp
  have cc: "counter (js_plus (correctAnswers s) (if isCorrect answer r then Num 1 else Num 0))"
    "js_less_eq (correctAnswers s)
       (js_plus (correctAnswers s) (if isCorrect answer r then Num 1 else Num 0))"
    using counter_increment [OF s(7)] counter_plus_zero [OF s(7)] s(7)
    by (simp_all add: counter_less_eq_refl)
  have fields: "score (handleUserAnswer answer r s) = Num (of_int n)"
    "streak (handleUserAnswer answer r s)
       = (if isCorrect answer r then js_plus (streak s) (Num 1) else Num 0)"
    "totalAnswers (handleUserAnswer answer r s) = js_plus (totalAnswers s) (Num 1)"
    "correctAnswers (handleUserAnswer answer r s)
       = js_plus (correctAnswers s) (if isCorrect answer r then Num 1 else Num 0)"
    "level (handleUserAnswer answer r s) = Num (of_int (n div 500 + 1))"
    unfolding handleUserAnswer_def sc lv by simp_all
  show "GameStats_exact (handleUserAnswer answer r s) (a + step_points (answer, r))"
    unfolding GameStats_exact_def fields p_def [symmetric] fl
    using n bound st cc(1) counter_increment(1) [OF s(6)] by simp
  show "js_less_eq (score s) (score (handleUserAnswer answer r s))"
    unfolding fields s(1) using pt(3) n [symmetric] by simp
  show "js_less_eq (totalAnswers s) (totalAnswers (handleUserAnswer answer r s))"
    unfolding fields by (rule counter_increment(2) [OF s(6)])
  show "js_less_eq (correctAnswers s) (correctAnswers (handleUserAnswer answer r s))"
    unfolding fields by (rule cc(2))
qed

lemma total_points_Cons:
  "total_points (turn # steps) = step_points turn + total_points steps"
  by (simp add: total_points_def)

lemma total_points_nonneg:
  "list_all nonneg_integer_confidence steps \<Longrightarrow> 0 \<le> total_points steps"
proof (induction steps)
  case Nil
  then show ?case by (simp add: total_points_def)
next
  case (Cons turn steps)
  obtain answer r where turn: "turn = (answer, r)" by (cases turn)
  have "0 \<le> step_points turn"
    using Cons.prems points_step_points(3) [of answer r] by (simp add: turn)
  then show ?case
    using Cons by (simp add: total_points_Cons)
qed

lemma play_exact:
  "GameStats_exact s a \<Longrightarrow> list_all nonneg_integer_confidence steps
     \<Longrightarrow> a + total_points steps \<le> 2 ^ 53
     \<Longrightarrow> GameStats_exact (play s steps) (a + total_points steps)"
proof (induction steps arbitrary: s a)
  case Nil
  then show ?case by (simp add: total_points_def)
next
  case (Cons turn steps)
  obtain answer r where turn: "turn = (answer, r)" by (cases turn)
  have nic: "nonneg_integer_confidence (answer, r)" "list_all nonneg_integer_confidence steps"
    using Cons.prems(2) by (simp_all add: turn)
  have rest: "0 \<le> total_points steps"
    using nic(2) by (rule total_points_nonneg)
  have sum: "a + step_points (answer, r) + total_points steps \<le> 2 ^ 53"
    using Cons.prems(3) by (simp add: turn total_points_Cons add.assoc)
  then have "a + step_points (answer, r) \<le> 2 ^ 53"
    using rest by linarith
  then have "GameStats_exact (handleUserAnswer answer r s) (a + step_points (answer, r))"
    using Cons.prems(1) nic(1) by (intro handleUserAnswer_exact(1))
  then have "GameStats_exact (play (handleUserAnswer answer r s) steps)
      (a + step_points (answer, r) + total_points steps)"
    using nic(2) sum by (rule Cons.IH)
  then show ?case
    by (simp add: turn total_points_Cons add.assoc)
qed

lemma GameStats_exact_invariant:
  assumes "GameStats_exact s a"
  shows "GameStats_invariant s"
proof -
  have s: "score s = Num a" "a = of_int \<lfloor>a\<rfloor>" "0 \<le> a"
    "counter (streak s)" "counter (totalAnswers s)" "counter (correctAnswers s)"
    "level s = Num (of_int (\<lfloor>a / 500\<rfloor> + 1))"
    using assms by (simp_all add: GameStats_exact_def)
  have "0 \<le> \<lfloor>a / 500\<rfloor>" using s(3) by simp
  then have "(0::rat) < of_int (\<lfloor>a / 500\<rfloor> + 1)"
    by (simp only: of_int_0_less_iff)
  then have "js_greater (level s) (Num 0)"
    unfolding s(7) by simp
  moreover have "nonneg_integer (score s)"
    using s(2,3) by (simp add: s(1) nonneg_integer_def)
  ultimately show ?thesis
    using s(4,5,6) by (simp add: GameStats_invariant_def counter_nonneg_integer s(1) s(7))
qed

lemma initialGameStats_exact: "GameStats_exact initialGameStats 0"
  by (simp add: GameStats_exact_def initialGameStats_def counter_def)

lemma play_append:
  "play s (steps @ [(answer, r)]) = handleUserAnswer answer r (play s steps)"
  by (induction steps arbitrary: s) auto

lemma total_points_append:
  "total_points (steps @ [turn]) = total_points steps + step_points turn"
  by (simp add: total_points_def)

lemma round53_half: "round53 (1 / 2) = 1 / 2"
  by code_simp

lemma to_double_half: "to_double (1 / 2) = Num (1 / 2)"
  by (simp add: to_double_Num round53_half)

lemma to_double_minus_ten: "to_double (- 10) = Num (- 10)"
  using to_double_of_int [of "- 10"] by simp

lemma floor_half: "\<lfloor>1 / 2 :: rat\<rfloor> = 0"
  by (simp add: floor_eq_iff)

text \<open>
  Claim C8, as stated, fails: the confidence of a result is not checked anywhere, and
  the numbers are doubles. From the initial statistics, a correct answer against a
  result with the confidence \<open>-10\<close> gives a negative score, one against the confidence
  \<open>0.5\<close> gives a score that is not an integer, and one against the confidence
  \<open>500 * 2 ^ 53\<close> gives the level \<open>2 ^ 53\<close>, one less than the score divided by 500,
  rounded down, plus one.
\<close>

theorem scoring_invariant_counterexample:
  "\<not> nonneg_integer (score (play initialGameStats
       [(Recycle, Some \<lparr>classification = Recycle, confidence = Num (- 10),
                        explanation = ''x'', tips = []\<rparr>)]))
   \<and> \<not> nonneg_integer (score (play initialGameStats
       [(Recycle, Some \<lparr>classification = Recycle, confidence = Num (1 / 2),
                        explanation = ''x'', tips = []\<rparr>)]))
   \<and> \<not> GameStats_invariant (play initialGameStats
       [(Recycle, Some \<lparr>classification = Recycle, confidence = Num 4503599627370496000,
                        explanation = ''x'', tips = []\<rparr>)])"
  by (simp add: initialGameStats_def handleUserAnswer_def points_Some or_zero_def
      js_plus.simps js_divide.simps Math_floor_def nonneg_integer_def GameStats_invariant_def
      to_double_minus_ten to_double_half floor_half to_double_two_53 to_double_beyond)

text \<open>
  Claim C8, amended. Starting from the initial statistics, every state reached through
  scoring updates whose results carry a confidence that is an integer and not negative,
  with at most \<open>2 ^ 53\<close> points awarded in all, satisfies: score, streak,
  \<open>totalAnswers\<close> and \<open>correctAnswers\<close> are integers that are not negative, and the level
  is a positive integer, the score divided by 500, rounded down, plus one; and the last
  of these updates decreased none of score, \<open>totalAnswers\<close> and \<open>correctAnswers\<close>.
\<close>

theorem scoring_invariant:
  assumes "list_all nonneg_integer_confidence steps" and "total_points steps \<le> 2 ^ 53"
  shows "GameStats_invariant (play initialGameStats steps)
    \<and> (steps = earlier @ [(answer, r)] \<longrightarrow>
         js_less_eq (score (play initialGameStats earlier))
           (score (play initialGameStats steps))
         \<and> js_less_eq (totalAnswers (play initialGameStats earlier))
           (totalAnswers (play initialGameStats steps))
         \<and> js_less_eq (correctAnswers (play initialGameStats earlier))
           (correctAnswers (play initialGameStats steps)))"
proof (intro conjI impI)
  have "GameStats_exact (play initialGameStats steps) (0 + total_points steps)"
    using initialGameStats_exact assms by (intro play_exact) simp_all
  then show "GameStats_invariant (play initialGameStats steps)"
    by (rule GameStats_exact_invariant)
next
  assume steps: "steps = earlier @ [(answer, r)]"
  define s where "s = play initialGameStats earlier"
  have nic: "list_all nonneg_integer_confidence earlier"
    "nonneg_integer_confidence (answer, r)"
    using assms(1) by (simp_all add: steps)
  have last: "0 \<le> step_points (answer, r)"
    using nic(2) by (rule points_step_points(3))
  have sum: "total_points earlier + step_points (answer, r) \<le> 2 ^ 53"
    using assms(2) by (simp add: steps total_points_append)
  then have "0 + total_points earlier \<le> 2 ^ 53"
    using last by linarith
  then have "GameStats_exact s (0 + total_points earlier)"
    unfolding s_def using initialGameStats_exact nic(1) by (intro play_exact)
  then have exact: "GameStats_exact s (total_points earlier)"
    by simp
  have now: "play initialGameStats steps = handleUserAnswer answer r s"
    by (simp add: steps play_append s_def)
  show "js_less_eq (score (play initialGameStats earlier))
      (score (play initialGameStats steps))"
    unfolding now s_def [symmetric] using exact nic(2) sum by (rule handleUserAnswer_exact(2))
  show "js_less_eq (totalAnswers (play initialGameStats earlier))
      (totalAnswers (play initialGameStats steps))"
    unfolding now s_def [symmetric] using exact nic(2) sum by (rule handleUserAnswer_exact(3))
  show "js_less_eq (correctAnswers (play initialGameStats earlier))
      (correctAnswers (play initialGameStats steps))"
    unfolding now s_def [symmetric] using exact nic(2) sum by (rule handleUserAnswer_exact(4))
qed

theorem scoring_invariant_witness:
  "list_all nonneg_integer_confidence
     [(Recycle, Some \<lparr>classification = Recycle, confidence = Num 90, explanation = ''a'',
         tips = []\<rparr>),
      (Trash, Some \<lparr>classification = Recycle, confidence = Num 80, explanation = ''b'',
         tips = []\<rparr>)]
   \<and> total_points
     [(Recycle, Some \<lparr>classification = Recycle, confidence = Num 90, explanation = ''a'',
         tips = []\<rparr>),
      (Trash, Some \<lparr>classification = Recycle, confidence = Num 80, explanation = ''b'',
         tips = []\<rparr>)] \<le> 2 ^ 53
   \<and> GameStats_invariant (play initialGameStats
     [(Recycle, Some \<lparr>classification = Recycle, confidence = Num 90, explanation = ''a'',
         tips = []\<rparr>),
      (Trash, Some \<lparr>classification = Recycle, confidence = Num 80, explanation = ''b'',
         tips = []\<rparr>)])
   \<and> js_less_eq
       (totalAnswers (play initialGameStats
         [(Recycle, Some \<lparr>classification = Recycle, confidence = Num 90, explanation = ''a'',
             tips = []\<rparr>)]))
       (totalAnswers (play initialGameStats
         [(Recycle, Some \<lparr>classification = Recycle, confidence = Num 90, explanation = ''a'',
             tips = []\<rparr>),
          (Trash, Some \<lparr>classification = Recycle, confidence = Num 80, explanation = ''b'',
             tips = []\<rparr>)]))"
proof -
  have h: "list_all nonneg_integer_confidence
     [(Recycle, Some \<lparr>classification = Recycle, confidence = Num 90, explanation = ''a'',
         tips = []\<rparr>),
      (Trash, Some \<lparr>classification = Recycle, confidence = Num 80, explanation = ''b'',
         tips = []\<rparr>)]"
    by (simp add: nonneg_integer_confidence_def nonneg_integer_def)
  have t: "total_points
     [(Recycle, Some \<lparr>classification = Recycle, confidence = Num 90, explanation = ''a'',
         tips = []\<rparr>),
      (Trash, Some \<lparr>classification = Recycle, confidence = Num 80, explanation = ''b'',
         tips = []\<rparr>)] \<le> 2 ^ 53"
    by (simp add: total_points_def step_points_def)
  show ?thesis
    using h t scoring_invariant [OF h t, where answer = Trash
        and r = "Some \<lparr>classification = Recycle, confidence = Num 80, explanation = ''b'',
         tips = []\<rparr>"
        and earlier = "[(Recycle, Some \<lparr>classification = Recycle, confidence = Num 90,
         explanation = ''a'', tips = []\<rparr>)]"]
    by simp
qed

section \<open>Accuracy display\<close>

text \<open>
  The quotient of two counters times 100, as the code computes it, is the exact
  percentage up to a relative error of \<open>2 ^ -51\<close>.
\<close>

lemma percent_error:
  fixes c t :: int
  assumes "0 < c" and "c \<le> 2 ^ 53" and "0 < t" and "t \<le> 2 ^ 53"
  defines "x \<equiv> (of_int c / of_int t :: rat)"
  shows "\<exists>p. js_times (js_divide (Num (of_int c)) (Num (of_int t))) (Num 100) = Num p
    \<and> \<bar>p - 100 * x\<bar> \<le> 100 * x * 2 powi (- 51)"
proof -
  have c1: "(1::rat) \<le> of_int c" using assms(1) by simp
  have c2: "(of_int c :: rat) \<le> of_int (2 ^ 53)" using assms(2) by (simp only: of_int_le_iff)
  have t1: "(1::rat) \<le> of_int t" using assms(3) by simp
  have t2: "(of_int t :: rat) \<le> of_int (2 ^ 53)" using assms(4) by (simp only: of_int_le_iff)
  have tpos: "(0::rat) < of_int t" using t1 by linarith
  have xlo: "1 / 2 ^ 53 \<le> x"
  proof -
    have "(1::rat) / 2 ^ 53 \<le> 1 / of_int t"
      using t2 tpos by (intro divide_left_mono) simp_all
    also have "\<dots> \<le> x"
      using c1 tpos by (simp add: x_def divide_right_mono)
    finally show ?thesis .
  qed
  have xhi: "x \<le> 2 ^ 53"
  proof -
    have "x \<le> of_int c / 1"
      unfolding x_def using c1 t1 by (intro divide_left_mono) simp_all
    then show ?thesis using c2 by simp
  qed
  have xpos: "0 < x" using xlo by (rule less_le_trans [rotated]) simp
  define q where "q = round53 x"
  have "2 powi (- 1022) \<le> x"
    using xlo by (rule order_trans [rotated]) simp
  then have "\<bar>q - x\<bar> \<le> x * 2 powi (- 53)"
    unfolding q_def by (rule round53_rel_error)
  then have qerr: "\<bar>q - x\<bar> \<le> x / 9007199254740992" by simp
  have qb: "x / 2 \<le> q" "q \<le> 2 * x"
    using qerr xpos by linarith+
  have "\<bar>q\<bar> \<le> 2 * 2 ^ 53"
    using qb xhi xpos by linarith
  then have "\<bar>round53 x\<bar> < 2 ^ 1024"
    unfolding q_def by (rule le_less_trans) simp
  then have qnum: "to_double x = Num q"
    unfolding q_def by (rule to_double_Num)
  define y where "y = q * 100"
  define p where "p = round53 y"
  have ylo: "1 / 2 ^ 53 \<le> y"
    using qb(1) xlo by (simp add: y_def)
  have ypos: "0 < y" using qb(1) xpos by (simp add: y_def)
  have "2 powi (- 1022) \<le> y"
    using ylo by (rule order_trans [rotated]) simp
  then have "\<bar>p - y\<bar> \<le> y * 2 powi (- 53)"
    unfolding p_def by (rule round53_rel_error)
  then have perr: "\<bar>p - y\<bar> \<le> y / 9007199254740992" by simp
  have pb: "\<bar>p\<bar> \<le> 2 * y"
    using perr ypos by linarith
  have "\<bar>p\<bar> \<le> 400 * 2 ^ 53"
    using pb qb(2) xhi by (simp add: y_def)
  then have "\<bar>round53 y\<bar> < 2 ^ 1024"
    unfolding p_def by (rule le_less_trans) simp
  then have pnum: "to_double y = Num p"
    unfolding p_def by (rule to_double_Num)
  have tne: "(of_int t :: rat) \<noteq> 0" using tpos by simp
  have "js_times (js_divide (Num (of_int c)) (Num (of_int t))) (Num 100) = Num p"
    using tne qnum pnum by (simp add: x_def y_def js_divide.simps js_times.simps)
  moreover have "\<bar>p - 100 * x\<bar> \<le> 100 * x * 2 powi (- 51)"
  proof -
    have "p - 100 * x = (p - y) + 100 * (q - x)"
      by (simp add: y_def)
    then have "\<bar>p - 100 * x\<bar> \<le> \<bar>p - y\<bar> + \<bar>100 * (q - x)\<bar>"
      by (simp only: abs_triangle_ineq)
    also have "\<dots> = \<bar>p - y\<bar> + 100 * \<bar>q - x\<bar>"
      by (simp only: abs_mult abs_numeral)
    also have "\<dots> \<le> y / 9007199254740992 + 100 * (x / 9007199254740992)"
      using perr qerr by (intro add_mono mult_left_mono) simp_all
    also have "\<dots> \<le> 100 * x / 2251799813685248"
      using qb(2) xpos by (simp add: y_def)
    finally show ?thesis by simp
  qed
  ultimately show ?thesis by blast
qed

text \<open>The rounding of doubles shows: 23 of 40 is displayed as 57.\<close>

lemma round53_23_of_40:
  "round53 (23 / 40) = 2589569785738035 / 4503599627370496"
  "round53 (64739244643450875 / 1125899906842624) = 8092405580431359 / 140737488355328"
  by code_simp+

lemma floor_57: "\<lfloor>8092405580431359 / 140737488355328 + 1 / 2 :: rat\<rfloor> = 57"
  by (rule floor_unique) simp_all

lemma accuracy_23_of_40:
  "accuracy \<lparr>score = s, streak = k, totalAnswers = Num 40, correctAnswers = Num 23, level = l\<rparr>
     = Num 57"
proof -
  have d: "js_divide (Num 23) (Num 40) = Num (2589569785738035 / 4503599627370496)"
    by (simp add: js_divide.simps to_double_Num round53_23_of_40)
  have m: "js_times (Num (2589569785738035 / 4503599627370496)) (Num 100)
      = Num (8092405580431359 / 140737488355328)"
    by (simp add: js_times.simps to_double_Num round53_23_of_40)
  have r: "Math_round (Num (8092405580431359 / 140737488355328)) = Num 57"
    by (simp only: Math_round_def jsnum.case floor_57 of_int_numeral)
  show ?thesis
    unfolding accuracy_def by (simp add: d m r)
qed

text \<open>Without its guard the expression is \<open>NaN\<close> before any answer.\<close>

lemma unguarded_accuracy_NaN:
  "Math_round (js_times (js_divide (Num 0) (Num 0)) (Num 100)) = NaN"
  by (simp add: Math_round_def js_times.simps js_divide.simps)

lemma accuracy_bounds:
  fixes c t :: int
  assumes "correctAnswers gs = Num (of_int c)" and "totalAnswers gs = Num (of_int t)"
    and "0 \<le> c" and "c \<le> 2 ^ 53" and "0 < t" and "t \<le> 2 ^ 53"
  shows "\<exists>a. accuracy gs = Num (of_int a)
     \<and> \<lfloor>100 * (of_int c / of_int t) * (1 - 2 powi (- 51)) + 1 / 2 :: rat\<rfloor> \<le> a
     \<and> a \<le> \<lfloor>100 * (of_int c / of_int t) * (1 + 2 powi (- 51)) + 1 / 2 :: rat\<rfloor>"
proof (cases "c = 0")
  case True
  have "to_double 0 = Num 0"
    using to_double_of_int [of 0] by simp
  then have "accuracy gs = Num (of_int 0)"
    using assms(5) by (simp add: accuracy_def assms(1,2) True js_divide.simps js_times.simps
        Math_round_def floor_half)
  then show ?thesis
    using True by (intro exI [of _ 0]) simp
next
  case False
  then have "0 < c" using assms(3) by simp
  then obtain p where p: "js_times (js_divide (Num (of_int c)) (Num (of_int t))) (Num 100) = Num p"
    "\<bar>p - 100 * (of_int c / of_int t)\<bar> \<le> 100 * (of_int c / of_int t) * 2 powi (- 51)"
    using percent_error [OF _ assms(4,5,6)] by blast
  define x :: rat where "x = 100 * (of_int c / of_int t)"
  define e :: rat where "e = 2 powi (- 51)"
  have "\<bar>p - x\<bar> \<le> x * e"
    using p(2) by (simp only: x_def e_def)
  then have "p - x \<le> x * e" "- (p - x) \<le> x * e"
    by (rule abs_le_D1, rule abs_le_D2)
  then have "x * (1 - e) \<le> p" "p \<le> x * (1 + e)"
    by (simp_all add: algebra_simps)
  then have "\<lfloor>x * (1 - e) + 1 / 2\<rfloor> \<le> \<lfloor>p + 1 / 2\<rfloor>"
    "\<lfloor>p + 1 / 2\<rfloor> \<le> \<lfloor>x * (1 + e) + 1 / 2\<rfloor>"
    by (intro floor_mono; simp)+
  moreover have "accuracy gs = Num (of_int \<lfloor>p + 1 / 2\<rfloor>)"
    using assms(5) by (simp add: accuracy_def assms(1,2) p(1) Math_round_def)
  ultimately show ?thesis
    unfolding x_def e_def by blast
qed

text \<open>
  Claim C9, as stated, fails: the quotient and the product are rounded to doubles before
  \<open>Math.round\<close> sees them. For 23 correct answers of 40 the percentage is 57.5, which
  rounds to 58, and the display is 57.
\<close>

theorem accuracy_display_counterexample:
  "accuracy \<lparr>score = Num 0, streak = Num 0, totalAnswers = Num 40, correctAnswers = Num 23,
       level = Num 1\<rparr> = Num 57
   \<and> \<lfloor>23 / 40 * 100 + 1 / 2 :: rat\<rfloor> = 58"
  by (simp add: accuracy_23_of_40)

text \<open>
  Claim C9, amended. For statistics whose \<open>correctAnswers\<close> and \<open>totalAnswers\<close> are integers
  from 0 to \<open>2 ^ 53\<close>, the displayed accuracy is exactly 0 when \<open>totalAnswers = 0\<close> and
  is never \<open>NaN\<close>; when \<open>totalAnswers > 0\<close> it is an integer that lies between the
  roundings (to the nearest integer, a tie going up) of the exact percentage
  \<open>correctAnswers / totalAnswers * 100\<close> decreased and increased by the fraction \<open>2 ^ -51\<close>
  of itself. It is not always the rounding of the exact percentage: 23 of 40 displays 57.
\<close>

theorem accuracy_display:
  fixes c t :: int
  assumes "correctAnswers gs = Num (of_int c)" and "totalAnswers gs = Num (of_int t)"
    and "0 \<le> c" and "c \<le> 2 ^ 53" and "0 \<le> t" and "t \<le> 2 ^ 53"
  shows "(0 < t \<longrightarrow>
       (\<exists>a. accuracy gs = Num (of_int a)
          \<and> \<lfloor>100 * (of_int c / of_int t) * (1 - 2 powi (- 51)) + 1 / 2 :: rat\<rfloor> \<le> a
          \<and> a \<le> \<lfloor>100 * (of_int c / of_int t) * (1 + 2 powi (- 51)) + 1 / 2 :: rat\<rfloor>))
   \<and> (t = 0 \<longrightarrow> accuracy gs = Num 0)
   \<and> accuracy gs \<noteq> NaN
   \<and> accuracy \<lparr>score = Num 0, streak = Num 0, totalAnswers = Num 40, correctAnswers = Num 23,
        level = Num 1\<rparr> = Num 57"
proof (intro conjI impI)
  assume "0 < t"
  then show "\<exists>a. accuracy gs = Num (of_int a)
     \<and> \<lfloor>100 * (of_int c / of_int t) * (1 - 2 powi (- 51)) + 1 / 2 :: rat\<rfloor> \<le> a
     \<and> a \<le> \<lfloor>100 * (of_int c / of_int t) * (1 + 2 powi (- 51)) + 1 / 2 :: rat\<rfloor>"
    using assms by (intro accuracy_bounds)
next
  assume "t = 0"
  then show "accuracy gs = Num 0"
    by (simp add: accuracy_def assms(2))
next
  show "accuracy gs \<noteq> NaN"
  proof (cases "0 < t")
    case True
    then obtain a where "accuracy gs = Num (of_int a)"
      using accuracy_bounds [OF assms(1,2,3,4) _ assms(6)] by blast
    then show ?thesis by simp
  next
    case False
    then show ?thesis
      by (simp add: accuracy_def assms(2))
  qed
next
  show "accuracy \<lparr>score = Num 0, streak = Num 0, totalAnswers = Num 40,
      correctAnswers = Num 23, level = Num 1\<rparr> = Num 57"
    by (rule accuracy_23_of_40)
qed

theorem accuracy_display_witness:
  "correctAnswers \<lparr>score = Num 0, streak = Num 0, totalAnswers = Num 4, correctAnswers = Num 1,
       level = Num 1\<rparr> = Num (of_int 1)
   \<and> totalAnswers \<lparr>score = Num 0, streak = Num 0, totalAnswers = Num 4, correctAnswers = Num 1,
       level = Num 1\<rparr> = Num (of_int 4)
   \<and> (0::int) < 4
   \<and> accuracy \<lparr>score = Num 0, streak = Num 0, totalAnswers = Num 4, correctAnswers = Num 1,
       level = Num 1\<rparr> = Num 25
   \<and> totalAnswers initialGameStats = Num (of_int 0)
   \<and> accuracy initialGameStats = Num 0"
proof -
  have lo: "\<lfloor>100 * (of_int 1 / of_int 4) * (1 - 2 powi (- 51)) + 1 / 2 :: rat\<rfloor> = 25"
    by (simp add: floor_eq_iff)
  have hi: "\<lfloor>100 * (of_int 1 / of_int 4) * (1 + 2 powi (- 51)) + 1 / 2 :: rat\<rfloor> = 25"
    by (simp add: floor_eq_iff)
  have one: "\<exists>a. accuracy \<lparr>score = Num 0, streak = Num 0, totalAnswers = Num 4,
      correctAnswers = Num 1, level = Num 1\<rparr> = Num (of_int a) \<and> 25 \<le> a \<and> a \<le> 25"
    using accuracy_display
        [where gs = "\<lparr>score = Num 0, streak = Num 0, totalAnswers = Num 4,
           correctAnswers = Num 1, level = Num 1\<rparr>" and c = 1 and t = 4]
    unfolding lo hi by simp
  then obtain a where "accuracy \<lparr>score = Num 0, streak = Num 0, totalAnswers = Num 4,
      correctAnswers = Num 1, level = Num 1\<rparr> = Num (of_int a)" and "a = 25"
    by auto
  then have "accuracy \<lparr>score = Num 0, streak = Num 0, totalAnswers = Num 4,
      correctAnswers = Num 1, level = Num 1\<rparr> = Num 25"
    by simp
  then show ?thesis
    using accuracy_display [where gs = initialGameStats and c = 0 and t = 0]
    by (simp add: initialGameStats_def)
qed

section \<open>Uploader\<close>

lemma try_catch_Inl [simp]: "try_catch (Inl e) handler = handler e"
  by (simp add: try_catch_def)

lemma try_catch_Inr [simp]: "try_catch (Inr v) handler = Inr v"
  by (simp add: try_catch_def)

lemma startsWith_Nil: "\<not> startsWith [] ''https://''"
  by (simp add: startsWith_def)

lemma uploadImageToStorage_error:
  "uploadImageToStorage env dataUrl = Inl e \<Longrightarrow> e = Error ''Failed to upload image for analysis''"
  by (cases "upload_body env dataUrl") (simp_all add: uploadImageToStorage_def)

lemma analyzeImageFromUrl_total:
  "\<exists>result. analyzeImageFromUrl env imageUrl = Inr result"
  by (cases "analyze_body env imageUrl") (simp_all add: analyzeImageFromUrl_def)

lemma analyzeImageFromUrl_not_Inl: "analyzeImageFromUrl env imageUrl \<noteq> Inl e"
  by (cases "analyze_body env imageUrl") (simp_all add: analyzeImageFromUrl_def)

lemma attempt_body_Inl_iff:
  "attempt_body env frame = Inl e \<longleftrightarrow> uploadImageToStorage env frame = Inl e"
  by (auto simp: attempt_body_def analyzeImageFromUrl_not_Inl split: sum.splits)

text \<open>
  Claim C6. For every value the storage service returns: if the public URL is absent or
  does not begin with \<open>https://\<close>, the upload fails, and the error that reaches the
  caller, the analysis attempt of the polling loop, is the generic upload failure;
  if the URL begins with \<open>https://\<close>, it is returned unchanged.
\<close>

theorem uploadImageToStorage_validates:
  assumes "fetch_blob env dataUrl = Inr blob" and "storage_upload env blob = Inr publicUrl"
  shows "uploadImageToStorage env dataUrl =
           (case publicUrl of
              None \<Rightarrow> Inl (Error ''Failed to upload image for analysis'')
            | Some url \<Rightarrow>
                if startsWith url ''https://'' then Inr url
                else Inl (Error ''Failed to upload image for analysis''))
         \<and> attempt_body env dataUrl =
           (case publicUrl of
              None \<Rightarrow> Inl (Error ''Failed to upload image for analysis'')
            | Some url \<Rightarrow>
                if startsWith url ''https://'' then analyzeImageFromUrl env url
                else Inl (Error ''Failed to upload image for analysis''))"
  using assms
  by (auto simp: uploadImageToStorage_def upload_body_def attempt_body_def startsWith_Nil
      split: option.splits)

theorem uploadImageToStorage_validates_witness:
  "fetch_blob http_env ''data:image/jpeg;base64,AAAA'' = Inr ()
   \<and> storage_upload http_env () = Inr (Some ''http://cdn.example/x.jpg'')
   \<and> uploadImageToStorage http_env ''data:image/jpeg;base64,AAAA''
       = Inl (Error ''Failed to upload image for analysis'')
   \<and> fetch_blob reply_50_env ''data:image/jpeg;base64,AAAA'' = Inr ()
   \<and> storage_upload reply_50_env () = Inr (Some ''https://cdn.example/x.jpg'')
   \<and> uploadImageToStorage reply_50_env ''data:image/jpeg;base64,AAAA''
       = Inr ''https://cdn.example/x.jpg''"
  using uploadImageToStorage_validates
      [of http_env "''data:image/jpeg;base64,AAAA''" "()" "Some ''http://cdn.example/x.jpg''"]
    uploadImageToStorage_validates
      [of reply_50_env "''data:image/jpeg;base64,AAAA''" "()" "Some ''https://cdn.example/x.jpg''"]
  by (simp add: http_env_def reply_50_env_def startsWith_def)

section \<open>Classifier\<close>

lemma field_classifier_fallback:
  "field classifier_fallback ''classification'' = Some (JString ''trash'')"
  "field classifier_fallback ''confidence'' = Some (JNumber 75)"
  by (simp_all add: field_def classifier_fallback_def)

lemma validate_Inr_iff:
  "validate result = Inr r \<longleftrightarrow> r = result \<and> classification_valid result"
  by (cases result)
    (auto simp: validate_def get_prop_def truthy_def array_includes_def classification_valid_def
      field_def split: option.splits json.splits)

lemma validate_invalid:
  "\<not> classification_valid result \<Longrightarrow> \<exists>e. validate result = Inl e"
  using validate_Inr_iff [of result] by (cases "validate result") auto

text \<open>
  Claim C2. If the AI call fails, or the reply is not valid JSON after the code fences
  are stripped, or the classification of the parsed value is missing or is not exactly
  \<open>recycle\<close> or \<open>trash\<close>, the Classifier does not throw: it returns the fixed fallback,
  whose classification is \<open>trash\<close> and whose confidence is 75.
\<close>

theorem analyzeImageFromUrl_fallback:
  "(generateText env imageUrl = Inl e \<longrightarrow>
      analyzeImageFromUrl env imageUrl = Inr classifier_fallback)
   \<and> (generateText env imageUrl = Inr text \<and> JSON_parse env (cleanedText text) = None \<longrightarrow>
      analyzeImageFromUrl env imageUrl = Inr classifier_fallback)
   \<and> (generateText env imageUrl = Inr text \<and> JSON_parse env (cleanedText text) = Some result
       \<and> field result ''classification'' \<noteq> Some (JString ''recycle'')
       \<and> field result ''classification'' \<noteq> Some (JString ''trash'') \<longrightarrow>
      analyzeImageFromUrl env imageUrl = Inr classifier_fallback)
   \<and> field classifier_fallback ''classification'' = Some (JString ''trash'')
   \<and> field classifier_fallback ''confidence'' = Some (JNumber 75)"
proof -
  have a: "analyzeImageFromUrl env imageUrl = Inr classifier_fallback"
    if "generateText env imageUrl = Inl e"
    using that by (simp add: analyzeImageFromUrl_def analyze_body_def)
  have b: "analyzeImageFromUrl env imageUrl = Inr classifier_fallback"
    if "generateText env imageUrl = Inr text" and "JSON_parse env (cleanedText text) = None"
    using that by (simp add: analyzeImageFromUrl_def analyze_body_def)
  have c: "analyzeImageFromUrl env imageUrl = Inr classifier_fallback"
    if "generateText env imageUrl = Inr text"
      and "JSON_parse env (cleanedText text) = Some result"
      and "field result ''classification'' \<noteq> Some (JString ''recycle'')"
      and "field result ''classification'' \<noteq> Some (JString ''trash'')"
  proof -
    have "\<not> classification_valid result"
      using that(3,4) by (simp add: classification_valid_def)
    then obtain e' where "validate result = Inl e'"
      using validate_invalid by blast
    then show ?thesis
      using that(1,2) by (simp add: analyzeImageFromUrl_def analyze_body_def)
  qed
  show ?thesis
    using a b c field_classifier_fallback by blast
qed

theorem analyzeImageFromUrl_fallback_witness:
  "generateText http_env ''https://cdn.example/x.jpg'' = Inl (Error ''network'')
   \<and> analyzeImageFromUrl http_env ''https://cdn.example/x.jpg'' = Inr classifier_fallback
   \<and> generateText prose_env ''https://cdn.example/x.jpg''
       = Inr ''This looks like a plastic bottle.''
   \<and> JSON_parse prose_env (cleanedText ''This looks like a plastic bottle.'') = None
   \<and> analyzeImageFromUrl prose_env ''https://cdn.example/x.jpg'' = Inr classifier_fallback
   \<and> JSON_parse compost_env
         (cleanedText ''{\"classification\":\"compost\",\"confidence\":90}'')
       = Some (JObject [(''classification'', JString ''compost''), (''confidence'', JNumber 90)])
   \<and> analyzeImageFromUrl compost_env ''https://cdn.example/x.jpg'' = Inr classifier_fallback"
proof -
  have c: "cleanedText ''{\"classification\":\"compost\",\"confidence\":90}''
      = ''{\"classification\":\"compost\",\"confidence\":90}''"
    by code_simp
  show ?thesis
    using analyzeImageFromUrl_fallback
        [of http_env "''https://cdn.example/x.jpg''" "Error ''network''"]
      analyzeImageFromUrl_fallback
        [of prose_env "''https://cdn.example/x.jpg''" _ "''This looks like a plastic bottle.''"]
      analyzeImageFromUrl_fallback
        [of compost_env "''https://cdn.example/x.jpg''" _
          "''{\"classification\":\"compost\",\"confidence\":90}''"
          "JObject [(''classification'', JString ''compost''), (''confidence'', JNumber 90)]"]
    by (simp add: c http_env_def prose_env_def compost_env_def field_def)
qed

text \<open>The fences of a reply are stripped before it is parsed.\<close>

lemma cleanedText_fenced_reply_50:
  "cleanedText fenced_reply_50 = reply_50"
  by code_simp

text \<open>
  Claim C3, as stated, fails: only the classification of the parsed reply is checked,
  so a reply with the confidence 50 is returned as it is.
\<close>

theorem classifier_confidence_counterexample:
  "analyzeImageFromUrl reply_50_env ''https://cdn.example/x.jpg''
     = Inr (JObject [(''classification'', JString ''recycle''), (''confidence'', JNumber 50)])
   \<and> \<not> confidence_valid
       (JObject [(''classification'', JString ''recycle''), (''confidence'', JNumber 50)])"
  by (simp add: analyzeImageFromUrl_def analyze_body_def reply_50_env_def startsWith_def
      cleanedText_fenced_reply_50 validate_def get_prop_def truthy_def array_includes_def
      confidence_valid_def field_def)

lemma analyze_body_Inr:
  assumes "analyze_body env imageUrl = Inr r"
  shows "classification_valid r
    \<and> (\<exists>text. generateText env imageUrl = Inr text \<and> JSON_parse env (cleanedText text) = Some r)"
  using assms
  by (auto simp: analyze_body_def validate_Inr_iff split: if_splits sum.splits option.splits)

lemma classifier_fallback_valid:
  "classification_valid classifier_fallback" "confidence_valid classifier_fallback"
  by (simp_all add: classification_valid_def confidence_valid_def field_classifier_fallback)

text \<open>
  Claim C3, amended. Every result the Classifier returns has a classification that is
  \<open>recycle\<close> or \<open>trash\<close>. It is either the fallback, whose confidence 75 is an integer
  between 70 and 99, or the value parsed from the AI reply, unchanged: the confidence
  of a parsed result is whatever the reply carried.
\<close>

theorem analyzeImageFromUrl_result:
  assumes "analyzeImageFromUrl env imageUrl = Inr r"
  shows "classification_valid r
    \<and> (r = classifier_fallback
       \<or> (\<exists>text. generateText env imageUrl = Inr text
                \<and> JSON_parse env (cleanedText text) = Some r))
    \<and> confidence_valid classifier_fallback"
proof (cases "analyze_body env imageUrl")
  case (Inl e)
  then have "r = classifier_fallback"
    using assms by (simp add: analyzeImageFromUrl_def)
  then show ?thesis
    by (simp add: classifier_fallback_valid)
next
  case (Inr v)
  then have "r = v"
    using assms by (simp add: analyzeImageFromUrl_def)
  then show ?thesis
    using Inr analyze_body_Inr [of env imageUrl r] by (simp add: classifier_fallback_valid)
qed

theorem analyzeImageFromUrl_result_witness:
  "analyzeImageFromUrl reply_50_env ''https://cdn.example/x.jpg''
     = Inr (JObject [(''classification'', JString ''recycle''), (''confidence'', JNumber 50)])
   \<and> classification_valid
       (JObject [(''classification'', JString ''recycle''), (''confidence'', JNumber 50)])"
proof -
  have h: "analyzeImageFromUrl reply_50_env ''https://cdn.example/x.jpg''
     = Inr (JObject [(''classification'', JString ''recycle''), (''confidence'', JNumber 50)])"
    by (simp add: analyzeImageFromUrl_def analyze_body_def reply_50_env_def startsWith_def
        cleanedText_fenced_reply_50 validate_def get_prop_def truthy_def array_includes_def)
  show ?thesis
    using h analyzeImageFromUrl_result [OF h] by simp
qed

text \<open>
  Claim C10. For a URL that is empty or does not begin with \<open>https://\<close>, the error the
  Classifier throws for it is caught by the Classifier's own handler: the call returns
  the fixed fallback, the same value it returns when the AI call fails.
\<close>

theorem analyzeImageFromUrl_invalid_url:
  assumes "imageUrl = [] \<or> \<not> startsWith imageUrl ''https://''"
  shows "analyze_body env imageUrl
           = Inl (Error (''Invalid image URL for AI analysis: '' @ imageUrl @ ''. Must be HTTPS.''))
    \<and> analyzeImageFromUrl env imageUrl = Inr classifier_fallback
    \<and> (generateText env' imageUrl' = Inl e \<and> imageUrl' \<noteq> [] \<and> startsWith imageUrl' ''https://''
         \<longrightarrow> analyze_body env' imageUrl' = Inl e
           \<and> analyzeImageFromUrl env' imageUrl' = analyzeImageFromUrl env imageUrl)"
  using assms by (auto simp: analyzeImageFromUrl_def analyze_body_def)

theorem analyzeImageFromUrl_invalid_url_witness:
  "\<not> startsWith ''http://cdn.example/x.jpg'' ''https://''
   \<and> analyzeImageFromUrl reply_50_env ''http://cdn.example/x.jpg'' = Inr classifier_fallback
   \<and> generateText http_env ''https://cdn.example/x.jpg'' = Inl (Error ''network'')
   \<and> analyzeImageFromUrl http_env ''https://cdn.example/x.jpg''
       = analyzeImageFromUrl reply_50_env ''http://cdn.example/x.jpg''"
proof -
  have h: "''http://cdn.example/x.jpg'' = [] \<or> \<not> startsWith ''http://cdn.example/x.jpg'' ''https://''"
    by (simp add: startsWith_def)
  have g: "generateText http_env ''https://cdn.example/x.jpg'' = Inl (Error ''network'')
    \<and> ''https://cdn.example/x.jpg'' \<noteq> [] \<and> startsWith ''https://cdn.example/x.jpg'' ''https://''"
    by (simp add: http_env_def startsWith_def)
  show ?thesis
    using h g
      analyzeImageFromUrl_invalid_url
        [OF h, of reply_50_env http_env "''https://cdn.example/x.jpg''" "Error ''network''"]
    by simp
qed

section \<open>Polling loop\<close>

lemma tick_begin_timers [simp]:
  "timers (tick_begin closure now frame w) = timers w"
  "analysisIntervalRef (app (tick_begin closure now frame w)) = analysisIntervalRef (app w)"
  by (simp_all add: tick_begin_def split: option.splits)

lemma tick_finish_ref [simp]:
  "analysisIntervalRef (tick_finish env frame c) = analysisIntervalRef c"
  by (simp add: tick_finish_def split: sum.splits)

lemma step_timers [simp]:
  "timers (step env e w) = timers w"
  "analysisIntervalRef (app (step env e w)) = analysisIntervalRef (app w)"
  by (cases e; simp split: option.splits)+

lemma run_timers [simp]:
  "timers (run env es w) = timers w"
  "analysisIntervalRef (app (run env es w)) = analysisIntervalRef (app w)"
  by (induction es arbitrary: w) simp_all

lemma startStreamingAnalysis_timer:
  "timers w = [] \<Longrightarrow>
     timers (startStreamingAnalysis w) = [(Suc (issued w), lastAnalysisTime (app w))]
     \<and> analysisIntervalRef (app (startStreamingAnalysis w)) = Some (Suc (issued w))"
  by (simp add: startStreamingAnalysis_def setInterval_def)

lemma clear_analysis_interval_single:
  "timers w = [(h, closure)] \<Longrightarrow> analysisIntervalRef (app w) = Some h \<Longrightarrow> h \<noteq> 0 \<Longrightarrow>
     timers (clear_analysis_interval w) = []
     \<and> analysisIntervalRef (app (clear_analysis_interval w)) = None"
  by (simp add: clear_analysis_interval_def clearInterval_def)

lemma step_no_timer:
  "timers w = [] \<Longrightarrow> step env (TimerFires h now frame) w = w"
  by simp

lemma run_ticks_no_timer:
  "timers w = [] \<Longrightarrow> list_all timer_event es \<Longrightarrow> run env es w = w"
proof (induction es arbitrary: w)
  case Nil
  then show ?case by simp
next
  case (Cons e es)
  then show ?case
    by (cases e) (simp_all add: timer_event_def)
qed

lemma step_in_flight_no_timer:
  "timers w = [] \<Longrightarrow> length (in_flight (step env e w)) \<le> length (in_flight w)"
  by (cases e) simp_all

lemma run_in_flight_no_timer:
  "timers w = [] \<Longrightarrow> length (in_flight (run env es w)) \<le> length (in_flight w)"
proof (induction es arbitrary: w)
  case Nil
  then show ?case by simp
next
  case (Cons e es)
  have "length (in_flight (run env es (step env e w))) \<le> length (in_flight (step env e w))"
    using Cons.prems by (intro Cons.IH) simp
  also have "\<dots> \<le> length (in_flight w)"
    using Cons.prems by (rule step_in_flight_no_timer)
  finally show ?case by simp
qed

lemma step_idle:
  "timers w = [] \<Longrightarrow> in_flight w = [] \<Longrightarrow> step env e w = w"
  by (cases e) simp_all

lemma run_idle:
  "timers w = [] \<Longrightarrow> in_flight w = [] \<Longrightarrow> run env es w = w"
  by (induction es) (simp_all add: step_idle)

lemma attempt_body_reply_50:
  "attempt_body reply_50_env frame
     = Inr (JObject [(''classification'', JString ''recycle''), (''confidence'', JNumber 50)])"
  by (simp add: attempt_body_def uploadImageToStorage_def upload_body_def reply_50_env_def
      startsWith_def analyzeImageFromUrl_def analyze_body_def cleanedText_fenced_reply_50
      validate_def get_prop_def truthy_def array_includes_def)

lemma attempt_body_http:
  "attempt_body http_env frame = Inl (Error ''Failed to upload image for analysis'')"
  by (simp add: attempt_body_def uploadImageToStorage_def upload_body_def http_env_def
      startsWith_def)

lemma session_first_tick:
  "run env [TimerFires 1 1700000000500 (Some ''data:image/jpeg;base64,AAAA'')]
       (startStreamingAnalysis initialWorld)
     = \<lparr>app = initialComponent\<lparr>isStreamingAnalysis := True,
            analysisIntervalRef := Some 1, lastAnalysisTime := 1700000000500\<rparr>,
        timers = [(1, 0)], issued = 1,
        in_flight = [(1700000000500, ''data:image/jpeg;base64,AAAA'')]\<rparr>"
  by (simp add: startStreamingAnalysis_def setInterval_def initialWorld_def
      initialComponent_def tick_begin_def)

lemma session_first_tick_actions:
  "perform_all env
       [GrantCamera, ClickStartAnalysis,
        Browser (TimerFires 1 1700000000500 (Some ''data:image/jpeg;base64,AAAA''))]
       initialWorld
     = \<lparr>app = initialComponent\<lparr>isStreamingAnalysis := True, stream := True,
            isCameraMode := True, analysisIntervalRef := Some 1,
            lastAnalysisTime := 1700000000500\<rparr>,
        timers = [(1, 0)], issued = 1,
        in_flight = [(1700000000500, ''data:image/jpeg;base64,AAAA'')]\<rparr>"
  by (simp add: startCamera_def startStreamingAnalysis_def setInterval_def initialWorld_def
      initialComponent_def tick_begin_def)

lemma tick_begin_flag [simp]:
  "isStreamingAnalysis (app (tick_begin closure now frame w)) = isStreamingAnalysis (app w)"
  by (simp add: tick_begin_def split: option.splits)

lemma tick_finish_flag [simp]:
  "isStreamingAnalysis (tick_finish env frame c) = isStreamingAnalysis c"
  by (simp add: tick_finish_def split: sum.splits)

lemma step_flag [simp]:
  "isStreamingAnalysis (app (step env e w)) = isStreamingAnalysis (app w)"
  by (cases e; simp split: option.splits)

text \<open>
  The interval is tracked in every world the component reaches: a timer is set only by
  \<open>startStreamingAnalysis\<close>, which runs while \<open>isStreamingAnalysis\<close> is false, and every
  handler that clears that flag clears the interval and the ref with it.
\<close>

lemma interval_tracked_initialWorld: "interval_tracked initialWorld"
  by (simp add: interval_tracked_def initialWorld_def initialComponent_def)

lemma filter_single_handle:
  "map fst ts = [h] \<Longrightarrow> filter (\<lambda>t. fst t \<noteq> h) ts = []"
  by (cases ts) auto

lemma clear_analysis_interval_tracked:
  assumes "case analysisIntervalRef (app w) of
      None \<Rightarrow> timers w = [] | Some h \<Rightarrow> h \<noteq> 0 \<and> map fst (timers w) = [h]"
  shows "timers (clear_analysis_interval w) = []"
    and "analysisIntervalRef (app (clear_analysis_interval w)) = None"
    and "in_flight (clear_analysis_interval w) = in_flight w"
  using assms
  by (simp_all add: clear_analysis_interval_def clearInterval_def filter_single_handle
      split: option.splits)

lemma stopStreamingAnalysis_tracked:
  assumes "interval_tracked w"
  shows "timers (stopStreamingAnalysis w) = []"
    and "analysisIntervalRef (app (stopStreamingAnalysis w)) = None"
    and "in_flight (stopStreamingAnalysis w) = in_flight w"
proof -
  let ?w = "w\<lparr>app := (app w)\<lparr>isStreamingAnalysis := False\<rparr>\<rparr>"
  have tracked: "case analysisIntervalRef (app ?w) of
      None \<Rightarrow> timers ?w = [] | Some h \<Rightarrow> h \<noteq> 0 \<and> map fst (timers ?w) = [h]"
    using assms by (simp add: interval_tracked_def split: option.splits)
  show "timers (stopStreamingAnalysis w) = []"
    and "analysisIntervalRef (app (stopStreamingAnalysis w)) = None"
    and "in_flight (stopStreamingAnalysis w) = in_flight w"
    unfolding stopStreamingAnalysis_def
    using clear_analysis_interval_tracked [OF tracked] by simp_all
qed

lemma stopCamera_tracked:
  assumes "interval_tracked w"
  shows "timers (stopCamera closure_stream w) = []"
    and "analysisIntervalRef (app (stopCamera closure_stream w)) = None"
    and "in_flight (stopCamera closure_stream w) = in_flight w"
proof -
  let ?w = "w\<lparr>app := (app w)\<lparr>stream := (if closure_stream then False else stream (app w)),
      isCameraMode := False, isStreamingAnalysis := False\<rparr>\<rparr>"
  have tracked: "case analysisIntervalRef (app ?w) of
      None \<Rightarrow> timers ?w = [] | Some h \<Rightarrow> h \<noteq> 0 \<and> map fst (timers ?w) = [h]"
    using assms by (simp add: interval_tracked_def split: option.splits)
  show "timers (stopCamera closure_stream w) = []"
    and "analysisIntervalRef (app (stopCamera closure_stream w)) = None"
    and "in_flight (stopCamera closure_stream w) = in_flight w"
    unfolding stopCamera_def
    using clear_analysis_interval_tracked [OF tracked] by simp_all
qed

lemma resetGame_tracked:
  assumes "interval_tracked w"
  shows "timers (resetGame w) = []" and "analysisIntervalRef (app (resetGame w)) = None"
  unfolding resetGame_def
  using assms
  by (intro stopStreamingAnalysis_tracked; simp add: interval_tracked_def split: option.splits)+

lemma interval_tracked_stopped:
  "timers w = [] \<Longrightarrow> analysisIntervalRef (app w) = None \<Longrightarrow> interval_tracked w"
  by (simp add: interval_tracked_def)

lemma perform_tracked:
  assumes "interval_tracked w"
  shows "interval_tracked (perform env a w)"
proof (cases a)
  case GrantCamera
  then show ?thesis
    using assms by (simp add: startCamera_def interval_tracked_def split: option.splits)
next
  case ClickStartAnalysis
  then show ?thesis
    using assms
    by (auto simp add: startStreamingAnalysis_def setInterval_def interval_tracked_def
        split: option.splits)
next
  case ClickStopAnalysis
  then show ?thesis
    using stopStreamingAnalysis_tracked(1,2) [OF assms] by (simp add: interval_tracked_stopped)
next
  case (RunStopCamera closure_stream)
  then show ?thesis
    using stopCamera_tracked(1,2) [OF assms] by (simp add: interval_tracked_stopped)
next
  case (ClickAnswer answer)
  then show ?thesis
    using assms by (simp add: showAnswer_def interval_tracked_def split: option.splits)
next
  case ClickReset
  then show ?thesis
    using resetGame_tracked [OF assms] by (simp add: interval_tracked_stopped)
next
  case (Browser e)
  then show ?thesis
    using assms by (simp add: interval_tracked_def split: option.splits)
qed

lemma perform_all_tracked:
  "interval_tracked w \<Longrightarrow> interval_tracked (perform_all env acts w)"
  by (induction acts arbitrary: w) (simp_all add: perform_tracked)

lemma reachable_tracked: "interval_tracked (perform_all env acts initialWorld)"
  using interval_tracked_initialWorld by (rule perform_all_tracked)

lemma stopped_after_actions:
  assumes "interval_tracked w1"
    and "w2 = stopStreamingAnalysis w1 \<or> w2 = stopCamera closure_stream w1"
  shows "timers w2 = []" and "analysisIntervalRef (app w2) = None"
    and "in_flight w2 = in_flight w1"
  using assms(2) stopStreamingAnalysis_tracked [OF assms(1)]
    stopCamera_tracked [OF assms(1), of closure_stream]
  by auto

text \<open>An attempt in flight stores its result, or the fallback of the tick, when it settles.\<close>

lemma attempt_settles_stores:
  "k < length (in_flight w) \<Longrightarrow>
     analysisResult (app (run env [AttemptSettles k] w))
       = (case attempt_body env (snd (in_flight w ! k)) of
            Inr result \<Rightarrow> Some result
          | Inl error \<Rightarrow> Some tick_fallback)"
  by (simp add: tick_finish_def split: sum.splits)

text \<open>
  Claim C7, amended. In every world the component reaches, after \<open>stopStreamingAnalysis\<close>
  or \<open>stopCamera\<close> (whichever render created it) is invoked the interval timer is
  cancelled and its handle cleared, so no tick runs any more: timer events after the
  stop change nothing, and no attempt begins. The stop aborts nothing: the attempts in
  flight are those of before, and each of them still stores its result, or the fallback
  of the tick, when it completes; if none was in flight, nothing is stored after the
  stop.
\<close>

theorem stop_cancels_interval:
  assumes "w1 = perform_all env acts initialWorld"
    and "w2 = stopStreamingAnalysis w1 \<or> w2 = stopCamera closure_stream w1"
  shows "timers w2 = [] \<and> analysisIntervalRef (app w2) = None
    \<and> (list_all timer_event ticks \<longrightarrow> run env ticks w2 = w2)
    \<and> length (in_flight (run env later w2)) \<le> length (in_flight w2)
    \<and> (in_flight w2 = [] \<longrightarrow> run env later w2 = w2)
    \<and> in_flight w2 = in_flight w1
    \<and> (k < length (in_flight w2) \<longrightarrow>
         analysisResult (app (run env [AttemptSettles k] w2))
           = (case attempt_body env (snd (in_flight w2 ! k)) of
                Inr result \<Rightarrow> Some result
              | Inl error \<Rightarrow> Some tick_fallback))"
proof -
  have "interval_tracked w1"
    unfolding assms(1) by (rule reachable_tracked)
  then have "timers w2 = []" "analysisIntervalRef (app w2) = None"
    "in_flight w2 = in_flight w1"
    using assms(2) by (rule stopped_after_actions)+
  then show ?thesis
    using run_ticks_no_timer [of w2 ticks env] run_in_flight_no_timer [of w2 env later]
      run_idle [of w2 env later] attempt_settles_stores [of k w2 env]
    by simp
qed

theorem stop_cancels_interval_witness:
  "list_all timer_event [TimerFires 1 1700000003000 (Some ''data:image/jpeg;base64,AAAA'')]
   \<and> timers (stopStreamingAnalysis (perform_all reply_50_env
         [GrantCamera, ClickStartAnalysis,
          Browser (TimerFires 1 1700000000500 (Some ''data:image/jpeg;base64,AAAA''))]
         initialWorld)) = []
   \<and> run reply_50_env [TimerFires 1 1700000003000 (Some ''data:image/jpeg;base64,AAAA'')]
        (stopStreamingAnalysis (perform_all reply_50_env
          [GrantCamera, ClickStartAnalysis,
           Browser (TimerFires 1 1700000000500 (Some ''data:image/jpeg;base64,AAAA''))]
          initialWorld))
      = stopStreamingAnalysis (perform_all reply_50_env
          [GrantCamera, ClickStartAnalysis,
           Browser (TimerFires 1 1700000000500 (Some ''data:image/jpeg;base64,AAAA''))]
          initialWorld)
   \<and> 0 < length (in_flight (stopStreamingAnalysis (perform_all reply_50_env
          [GrantCamera, ClickStartAnalysis,
           Browser (TimerFires 1 1700000000500 (Some ''data:image/jpeg;base64,AAAA''))]
          initialWorld)))
   \<and> analysisResult (app (run reply_50_env [AttemptSettles 0]
        (stopStreamingAnalysis (perform_all reply_50_env
          [GrantCamera, ClickStartAnalysis,
           Browser (TimerFires 1 1700000000500 (Some ''data:image/jpeg;base64,AAAA''))]
          initialWorld))))
      = Some (JObject [(''classification'', JString ''recycle''), (''confidence'', JNumber 50)])
   \<and> in_flight (stopCamera True (perform_all reply_50_env [GrantCamera, ClickStartAnalysis]
        initialWorld)) = []
   \<and> run reply_50_env [AttemptSettles 0]
        (stopCamera True (perform_all reply_50_env [GrantCamera, ClickStartAnalysis]
           initialWorld))
      = stopCamera True (perform_all reply_50_env [GrantCamera, ClickStartAnalysis]
           initialWorld)"
proof -
  define w1 where "w1 = perform_all reply_50_env
      [GrantCamera, ClickStartAnalysis,
       Browser (TimerFires 1 1700000000500 (Some ''data:image/jpeg;base64,AAAA''))]
      initialWorld"
  define w2 where "w2 = stopStreamingAnalysis w1"
  define v1 where "v1 = perform_all reply_50_env [GrantCamera, ClickStartAnalysis] initialWorld"
  define v2 where "v2 = stopCamera True v1"
  have t: "list_all timer_event [TimerFires 1 1700000003000 (Some ''data:image/jpeg;base64,AAAA'')]"
    by (simp add: timer_event_def)
  have f: "in_flight w2 = [(1700000000500, ''data:image/jpeg;base64,AAAA'')]"
    unfolding w2_def w1_def session_first_tick_actions
    by (simp add: stopStreamingAnalysis_def clear_analysis_interval_def clearInterval_def)
  have g: "in_flight v2 = []"
    unfolding v2_def v1_def
    by (simp add: stopCamera_def clear_analysis_interval_def clearInterval_def
        startCamera_def startStreamingAnalysis_def setInterval_def initialWorld_def
        initialComponent_def)
  note first = stop_cancels_interval
    [where env = reply_50_env and closure_stream = False
      and ticks = "[TimerFires 1 1700000003000 (Some ''data:image/jpeg;base64,AAAA'')]"
      and later = "[]" and k = 0, OF w1_def disjI1 [OF w2_def]]
  note second = stop_cancels_interval
    [where env = reply_50_env and closure_stream = True
      and ticks = "[]" and later = "[AttemptSettles 0]" and k = 0,
      OF v1_def disjI2 [OF v2_def]]
  have a: "timers w2 = []"
    using first by blast
  have b: "run reply_50_env
      [TimerFires 1 1700000003000 (Some ''data:image/jpeg;base64,AAAA'')] w2 = w2"
    using first t by blast
  have c: "0 < length (in_flight w2)"
    by (simp add: f)
  have d: "analysisResult (app (run reply_50_env [AttemptSettles 0] w2))
      = Some (JObject [(''classification'', JString ''recycle''), (''confidence'', JNumber 50)])"
    using first c by (simp only: f nth_Cons_0 snd_conv attempt_body_reply_50 sum.case)
  have e: "run reply_50_env [AttemptSettles 0] v2 = v2"
    using second g by blast
  show ?thesis
    using t a b c d g e unfolding w2_def w1_def v2_def v1_def
    by (intro conjI)
qed

text \<open>
  Claim C7, as stated, fails: an attempt that began before the stop is not aborted,
  and stores a new result after the stop.
\<close>

theorem late_result_after_stop_counterexample:
  "analysisResult (app (stopStreamingAnalysis
       (run reply_50_env [TimerFires 1 1700000000500 (Some ''data:image/jpeg;base64,AAAA'')]
          (startStreamingAnalysis initialWorld)))) = None
   \<and> analysisResult (app (run reply_50_env [AttemptSettles 0]
       (stopStreamingAnalysis
          (run reply_50_env [TimerFires 1 1700000000500 (Some ''data:image/jpeg;base64,AAAA'')]
             (startStreamingAnalysis initialWorld)))))
     = Some (JObject [(''classification'', JString ''recycle''), (''confidence'', JNumber 50)])"
  unfolding session_first_tick
  by (simp add: stopStreamingAnalysis_def clear_analysis_interval_def clearInterval_def
      initialComponent_def tick_finish_def attempt_body_reply_50)

text \<open>
  The gate of a session compares the time with the value the callback closed over,
  which no tick changes: a tick with a frame begins an attempt whenever that value is
  at least 2000 ms old, whatever \<open>lastAnalysisTime\<close> has become.
\<close>

lemma tick_begin_passes:
  "2000 \<le> now - closure \<Longrightarrow> f \<noteq> [] \<Longrightarrow>
     tick_begin closure now (Some f) w
       = w\<lparr>app := (app w)\<lparr>lastAnalysisTime := now\<rparr>, in_flight := in_flight w @ [(now, f)]\<rparr>"
  by (simp add: tick_begin_def)

lemma session_closure_constant:
  "timers w = [] \<Longrightarrow>
     map_of (timers (run env es (startStreamingAnalysis w))) (Suc (issued w))
       = Some (lastAnalysisTime (app w))"
  by (simp add: startStreamingAnalysis_timer)

text \<open>
  So every tick of a session that comes 2000 ms or more after the value closed over
  begins an attempt, however close the ticks are to each other.
\<close>

lemma ticks_all_begin:
  "timers w = [(h, closure)] \<Longrightarrow>
   list_all (\<lambda>(now, f). 2000 \<le> now - closure \<and> f \<noteq> []) ticks \<Longrightarrow>
     in_flight (run env (map (\<lambda>(now, f). TimerFires h now (Some f)) ticks) w)
       = in_flight w @ ticks"
proof (induction ticks arbitrary: w)
  case Nil
  then show ?case by simp
next
  case (Cons tick ticks)
  obtain now f where tick: "tick = (now, f)"
    by (cases tick)
  let ?w' = "step env (TimerFires h now (Some f)) w"
  have s: "?w' = w\<lparr>app := (app w)\<lparr>lastAnalysisTime := now\<rparr>,
      in_flight := in_flight w @ [(now, f)]\<rparr>"
    using Cons.prems tick by (simp add: tick_begin_passes)
  have "in_flight (run env (map (\<lambda>(now, f). TimerFires h now (Some f)) ticks) ?w')
      = in_flight ?w' @ ticks"
    using Cons.prems by (intro Cons.IH) simp_all
  then show ?case
    using tick s by simp
qed

lemma session_ticks_all_begin:
  assumes "timers w = []"
    and "list_all (\<lambda>(now, f). 2000 \<le> now - lastAnalysisTime (app w) \<and> f \<noteq> []) ticks"
  shows "in_flight (run env (map (\<lambda>(now, f). TimerFires (Suc (issued w)) now (Some f)) ticks)
           (startStreamingAnalysis w))
         = in_flight (startStreamingAnalysis w) @ ticks"
  using assms startStreamingAnalysis_timer [OF assms(1)] by (intro ticks_all_begin) simp_all

text \<open>
  Claim C4 says that two attempts of one session begin at least 2000 ms apart. In the
  first session of the component the callback closes over \<open>lastAnalysisTime = 0\<close>, and
  two ticks 500 ms apart both begin an attempt, although the first has set
  \<open>lastAnalysisTime\<close> to its own time.
\<close>

theorem throttle_reads_stale_timestamp:
  "map fst (in_flight (run env
       [TimerFires 1 1700000000500 (Some ''data:image/jpeg;base64,AAAA''),
        TimerFires 1 1700000001000 (Some ''data:image/jpeg;base64,BBBB'')]
       (startStreamingAnalysis initialWorld)))
     = [1700000000500, 1700000001000]
   \<and> lastAnalysisTime (app (run env
       [TimerFires 1 1700000000500 (Some ''data:image/jpeg;base64,AAAA'')]
       (startStreamingAnalysis initialWorld))) = 1700000000500"
  by (simp add: startStreamingAnalysis_def setInterval_def initialWorld_def
      initialComponent_def tick_begin_def)

lemma field_tick_fallback:
  "field tick_fallback ''classification'' = Some (JString ''trash'')"
  "field tick_fallback ''confidence'' = Some (JNumber 75)"
  by (simp_all add: field_def tick_fallback_def)

lemma fallbacks_differ:
  "field tick_fallback ''explanation'' \<noteq> field classifier_fallback ''explanation''"
  "field tick_fallback ''tips'' \<noteq> field classifier_fallback ''tips''"
  by (simp_all add: field_def tick_fallback_def classifier_fallback_def)

text \<open>
  Claim C5, as stated, fails: the fallback that the tick stores when the upload fails is
  not the fallback of the Classifier.
\<close>

theorem tick_fallback_counterexample:
  "attempt_body http_env ''data:image/jpeg;base64,AAAA'' = Inl (Error ''Failed to upload image for analysis'')
   \<and> analysisResult (app (run http_env
        [TimerFires 1 1700000000500 (Some ''data:image/jpeg;base64,AAAA''), AttemptSettles 0]
        (startStreamingAnalysis initialWorld))) = Some tick_fallback
   \<and> tick_fallback \<noteq> classifier_fallback"
  by (simp add: startStreamingAnalysis_def setInterval_def initialWorld_def
      initialComponent_def tick_begin_def tick_finish_def attempt_body_http)
    (simp add: tick_fallback_def classifier_fallback_def)

text \<open>
  Claim C5, amended. For every attempt of a streaming tick whose
  capture-upload-classify sequence throws (only the upload can, with the generic
  upload failure), the stored result is replaced with the tick's own fixed fallback.
  It has the classification \<open>trash\<close> and the confidence 75 of the Classifier's
  fallback, and an explanation and tips of its own.
\<close>

theorem tick_catch_fallback:
  assumes "k < length (in_flight w)"
    and "attempt_body env (snd (in_flight w ! k)) = Inl e"
  shows "analysisResult (app (step env (AttemptSettles k) w)) = Some tick_fallback
    \<and> e = Error ''Failed to upload image for analysis''
    \<and> field tick_fallback ''classification'' = field classifier_fallback ''classification''
    \<and> field tick_fallback ''confidence'' = field classifier_fallback ''confidence''
    \<and> field tick_fallback ''classification'' = Some (JString ''trash'')
    \<and> field tick_fallback ''confidence'' = Some (JNumber 75)
    \<and> field tick_fallback ''explanation'' \<noteq> field classifier_fallback ''explanation''
    \<and> field tick_fallback ''tips'' \<noteq> field classifier_fallback ''tips''"
proof -
  have "uploadImageToStorage env (snd (in_flight w ! k)) = Inl e"
    using assms(2) by (simp add: attempt_body_Inl_iff)
  then have "e = Error ''Failed to upload image for analysis''"
    by (rule uploadImageToStorage_error)
  moreover have "analysisResult (app (step env (AttemptSettles k) w)) = Some tick_fallback"
    using assms by (simp add: tick_finish_def)
  ultimately show ?thesis
    by (simp add: field_tick_fallback field_classifier_fallback fallbacks_differ)
qed

theorem tick_catch_fallback_witness:
  "0 < length (in_flight (run http_env [TimerFires 1 1700000000500 (Some ''data:image/jpeg;base64,AAAA'')]
        (startStreamingAnalysis initialWorld)))
   \<and> attempt_body http_env
        (snd (in_flight (run http_env [TimerFires 1 1700000000500 (Some ''data:image/jpeg;base64,AAAA'')]
           (startStreamingAnalysis initialWorld)) ! 0))
      = Inl (Error ''Failed to upload image for analysis'')
   \<and> analysisResult (app (step http_env (AttemptSettles 0)
        (run http_env [TimerFires 1 1700000000500 (Some ''data:image/jpeg;base64,AAAA'')]
           (startStreamingAnalysis initialWorld)))) = Some tick_fallback"
proof -
  let ?w = "run http_env [TimerFires 1 1700000000500 (Some ''data:image/jpeg;base64,AAAA'')]
    (startStreamingAnalysis initialWorld)"
  have k: "0 < length (in_flight ?w)"
    unfolding session_first_tick by simp
  have a: "attempt_body http_env (snd (in_flight ?w ! 0))
      = Inl (Error ''Failed to upload image for analysis'')"
    by (rule attempt_body_http)
  show ?thesis
    using k a tick_catch_fallback [OF k a] by blast
qed

end
